theory Spec2Isabelle
  imports Main "HOL-Library.Word"
begin

section \<open>Data model\<close>

text \<open>
  The input of \<open>ico2png\<close> is a Python 2 byte string: a list of bytes.  Every number
  the function computes from it is an unsigned field or a sum or product of such
  fields, so Python's unbounded integers are natural numbers here; the only
  subtractions of the source, \<open>height - y - 1\<close> and \<open>xrange(height-1, -1, -1)\<close>,
  are taken with \<open>y < height\<close> and \<open>1 \<le> height\<close>.
\<close>

type_synonym byte = "8 word"

text \<open>
  The exceptions the function can leave with.  The source raises \<open>TypeError\<close> itself
  (lines 45, 47, 81, 172); \<open>struct.error\<close> comes from \<open>unpack\<close> on a string of the
  wrong length, \<open>ValueError\<close> from \<open>max\<close> on an empty list and \<open>IndexError\<close> from a
  list index out of range.
\<close>

datatype error = TypeError | StructError | ValueError | IndexError

text \<open>
  What the function has in hand when it leaves the decoding part: either the bytes
  it returns as they are (line 77), or the width, the height and the rows of
  channel values that it gives to the PNG writer (lines 174 to 177).
\<close>

datatype image = Verbatim "byte list" | Raster nat nat "nat list list"

text \<open>
  The eleven fields of \<open>unpack('<L2l2H2L2l2L', ...)\<close>, in the order of the tuple
  \<open>dib\<close>: \<open>dib[4]\<close> is \<open>biBitCount\<close> and \<open>dib[6]\<close> is \<open>biSizeImage\<close>.
\<close>

record dib_header =
  biSize :: nat
  biWidth :: int
  biHeight :: int
  biPlanes :: nat
  biBitCount :: nat
  biCompression :: nat
  biSizeImage :: nat
  biXPelsPerMeter :: int
  biYPelsPerMeter :: int
  biClrUsed :: nat
  biClrImportant :: nat

section \<open>Slices and \<open>struct.unpack\<close>\<close>

text \<open>Python's \<open>s[a:b]\<close> for \<open>0 \<le> a\<close> and \<open>0 \<le> b\<close>: it never raises and stops at the end of \<open>s\<close>.\<close>

definition slice :: "nat \<Rightarrow> nat \<Rightarrow> 'a list \<Rightarrow> 'a list" where
  "slice a b xs = take (b - a) (drop a xs)"

text \<open>An unsigned little-endian field, and a signed (two's complement) one of four bytes.\<close>

fun le_nat :: "byte list \<Rightarrow> nat" where
  "le_nat [] = 0"
| "le_nat (b # bs) = unat b + 256 * le_nat bs"

definition le_int32 :: "byte list \<Rightarrow> int" where
  "le_int32 bs = (let n = int (le_nat bs) in if n < 2147483648 then n else n - 4294967296)"

text \<open>
  \<open>unpack\<close> with a format of unsigned fields only, the format given as the list of
  the field sizes in bytes: \<open>'<3H'\<close> is \<open>[2, 2, 2]\<close>, \<open>'<4B2H2I'\<close> is
  \<open>[1, 1, 1, 1, 2, 2, 4, 4]\<close>, \<open>'<I'\<close> is \<open>[4]\<close>, \<open>'BBBB'\<close> is \<open>[1, 1, 1, 1]\<close>.
  It raises \<open>struct.error\<close> unless the string has exactly the size of the format.
\<close>

fun fields :: "nat list \<Rightarrow> byte list \<Rightarrow> nat list" where
  "fields [] bs = []"
| "fields (n # ns) bs = le_nat (take n bs) # fields ns (drop n bs)"

definition unpack :: "nat list \<Rightarrow> byte list \<Rightarrow> error + nat list" where
  "unpack fmt bs = (if length bs \<noteq> sum_list fmt then Inl StructError else Inr (fields fmt bs))"

definition unpack_dib :: "byte list \<Rightarrow> error + dib_header" where
  "unpack_dib bs =
     (if length bs \<noteq> 40 then Inl StructError
      else Inr \<lparr> biSize = le_nat (slice 0 4 bs),
                 biWidth = le_int32 (slice 4 8 bs),
                 biHeight = le_int32 (slice 8 12 bs),
                 biPlanes = le_nat (slice 12 14 bs),
                 biBitCount = le_nat (slice 14 16 bs),
                 biCompression = le_nat (slice 16 20 bs),
                 biSizeImage = le_nat (slice 20 24 bs),
                 biXPelsPerMeter = le_int32 (slice 24 28 bs),
                 biYPelsPerMeter = le_int32 (slice 28 32 bs),
                 biClrUsed = le_nat (slice 32 36 bs),
                 biClrImportant = le_nat (slice 36 40 bs) \<rparr>)"

text \<open>
  A list comprehension whose body can raise: the elements are computed from left to
  right and the first exception ends the comprehension.
\<close>

fun collect :: "('a \<Rightarrow> error + 'b) \<Rightarrow> 'a list \<Rightarrow> error + 'b list" where
  "collect f [] = Inr []"
| "collect f (x # xs) =
     (case f x of
        Inl e \<Rightarrow> Inl e
      | Inr v \<Rightarrow> (case collect f xs of Inl e \<Rightarrow> Inl e | Inr vs \<Rightarrow> Inr (v # vs)))"

section \<open>The helper functions of the source\<close>

text \<open>\<open>_bitlist\<close> (line 183): the eight bits of a byte, the most significant first.\<close>

definition bitlist :: "nat \<Rightarrow> nat list" where
  "bitlist byte = map (\<lambda>x. (byte div 2 ^ x) mod 2) (rev [0..<8])"

text \<open>\<open>_bitlistvalue\<close> (line 185): \<open>reduce(lambda x, y: 2 * x + y, l, 0)\<close>.\<close>

definition bitlistvalue :: "nat list \<Rightarrow> nat" where
  "bitlistvalue l = foldl (\<lambda>x y. 2 * x + y) 0 l"

section \<open>The directory\<close>

text \<open>
  Lines 55 to 58: one directory record, a list of eight numbers, with each of its
  first three entries replaced by 256 when it is 0.
\<close>

definition normalise :: "nat list \<Rightarrow> nat list" where
  "normalise directory = fold (\<lambda>j d. if d ! j = 0 then d[j := 256] else d) [0..<3] directory"

definition read_directory :: "byte list \<Rightarrow> nat \<Rightarrow> error + nat list" where
  "read_directory data i =
     (case unpack [1, 1, 1, 1, 2, 2, 4, 4] (slice (6 + 16 * i) (6 + 16 * i + 16) data) of
        Inl e \<Rightarrow> Inl e
      | Inr directory \<Rightarrow> Inr (normalise directory))"

text \<open>
  Python's comparison \<open>a > b\<close> of two lists of numbers, which \<open>max\<close> applies to the
  keys \<open>x[0:3]\<close>: the first position where they differ decides, and a proper
  prefix is the smaller list.
\<close>

fun list_gt :: "nat list \<Rightarrow> nat list \<Rightarrow> bool" where
  "list_gt [] ys = False"
| "list_gt (x # xs) [] = True"
| "list_gt (x # xs) (y # ys) = (if x = y then list_gt xs ys else x > y)"

text \<open>
  \<open>max(directories, key=(lambda x: x[0:3]))\<close> (line 62): the running maximum is
  replaced only by an item whose key is strictly greater, so the first of several
  maximal items is returned; on an empty list \<open>max\<close> raises \<open>ValueError\<close>.
\<close>

fun max_from :: "nat list \<Rightarrow> nat list list \<Rightarrow> nat list" where
  "max_from m [] = m"
| "max_from m (d # ds) =
     (if list_gt (slice 0 3 d) (slice 0 3 m) then max_from d ds else max_from m ds)"

definition max_directory :: "nat list list \<Rightarrow> error + nat list" where
  "max_directory directories =
     (case directories of [] \<Rightarrow> Inl ValueError | d # ds \<Rightarrow> Inr (max_from d ds))"

text \<open>Lines 42 to 59: the header and the list \<open>directories\<close>.\<close>

definition read_directories :: "byte list \<Rightarrow> error + nat list list" where
  "read_directories data =
     (case unpack [2, 2, 2] (slice 0 6 data) of
        Inl e \<Rightarrow> Inl TypeError
      | Inr header \<Rightarrow>
          if slice 0 2 header \<noteq> [0, 1] then Inl TypeError
          else let image_count = header ! 2
               in collect (read_directory data) [0..<image_count])"

text \<open>Lines 42 to 62: the directory record the function goes on with.\<close>

definition selected :: "byte list \<Rightarrow> error + nat list" where
  "selected data =
     (case read_directories data of
        Inl e \<Rightarrow> Inl e
      | Inr directories \<Rightarrow> max_directory directories)"

section \<open>The pixels\<close>

text \<open>Lines 90 to 96: the palette, one \<open>[red, green, blue]\<close> for each of the \<open>2 ** bits_per_pixel\<close> colours.\<close>

definition read_palette :: "byte list \<Rightarrow> nat \<Rightarrow> nat \<Rightarrow> nat \<Rightarrow> error + nat list list" where
  "read_palette data offset dib_size color_count =
     (case collect (\<lambda>i. unpack [1, 1, 1, 1]
                          (slice (offset + dib_size + 4 * i) (offset + dib_size + 4 * i + 4) data))
             [0..<color_count] of
        Inl e \<Rightarrow> Inl e
      | Inr raw_colors \<Rightarrow> Inr (map (\<lambda>color. map (\<lambda>x. color ! x) [2, 1, 0]) raw_colors))"

text \<open>Lines 99 to 106: the bits of the XOR map, \<open>bmp_data_bytes\<close> bytes after the palette.\<close>

definition xor_data_bits :: "byte list \<Rightarrow> nat \<Rightarrow> nat \<Rightarrow> nat \<Rightarrow> nat \<Rightarrow> nat list" where
  "xor_data_bits data offset dib_size color_count bmp_bytes =
     concat (map (\<lambda>byte. bitlist (unat byte))
       (slice (offset + dib_size + color_count * 4)
              (offset + dib_size + color_count * 4 + bmp_bytes) data))"

text \<open>Line 108: \<open>((width + 31) >> 5) << 2\<close>, the bytes of one row of the AND map.\<close>

definition and_row_size :: "nat \<Rightarrow> nat" where
  "and_row_size width = ((width + 31) div 2 ^ 5) * 2 ^ 2"

text \<open>Lines 109 to 116: the bits of the AND map, which follows the XOR map.\<close>

definition and_data_bits ::
  "byte list \<Rightarrow> nat \<Rightarrow> nat \<Rightarrow> nat \<Rightarrow> nat \<Rightarrow> nat \<Rightarrow> nat \<Rightarrow> nat list"
where
  "and_data_bits data offset dib_size color_count bmp_bytes width height =
     concat (map (\<lambda>byte. bitlist (unat byte))
       (slice (offset + dib_size + color_count * 4 + bmp_bytes)
              (offset + dib_size + color_count * 4 + bmp_bytes + and_row_size width * height)
              data))"

text \<open>
  \<open>get_pixel\<close> (lines 119 to 130), with the variables of the enclosing function
  that it reads as parameters.  The two list indexings raise \<open>IndexError\<close> out of
  range; the slice of the XOR bits does not.
\<close>

definition get_pixel ::
  "nat list list \<Rightarrow> nat list \<Rightarrow> nat list \<Rightarrow> nat \<Rightarrow> nat \<Rightarrow> nat \<Rightarrow> nat \<Rightarrow> nat \<Rightarrow> error + nat list"
where
  "get_pixel palette xor_bits and_bits width height bits_per_pixel x y =
     (let i = (height - y - 1) * and_row_size width * 8 + x in
      if \<not> i < length and_bits then Inl IndexError
      else if and_bits ! i = 1 then Inr [0, 0, 0, 0]
      else
        let v = bitlistvalue
                  (slice (bits_per_pixel * ((height - y - 1) * width + x))
                         (bits_per_pixel * ((height - y - 1) * width + x) + bits_per_pixel)
                         xor_bits)
        in if \<not> v < length palette then Inl IndexError
           else Inr (palette ! v @ [255]))"

text \<open>Lines 89 to 138: the branch \<open>bits_per_pixel <= 8\<close>.\<close>

definition indexed_pixels ::
  "byte list \<Rightarrow> nat \<Rightarrow> nat \<Rightarrow> nat \<Rightarrow> nat \<Rightarrow> nat \<Rightarrow> nat \<Rightarrow> error + nat list list"
where
  "indexed_pixels data offset dib_size width height bits_per_pixel bmp_bytes =
     (let color_count = 2 ^ bits_per_pixel in
      case read_palette data offset dib_size color_count of
        Inl e \<Rightarrow> Inl e
      | Inr palette \<Rightarrow>
          let xor_bits = xor_data_bits data offset dib_size color_count bmp_bytes;
              and_bits = and_data_bits data offset dib_size color_count bmp_bytes width height
          in collect (\<lambda>y.
               case collect (\<lambda>x. get_pixel palette xor_bits and_bits
                                     width height bits_per_pixel x y)
                      [0..<width] of
                 Inl e \<Rightarrow> Inl e
               | Inr quads \<Rightarrow> Inr (concat quads))
             [0..<height])"

text \<open>
  Lines 140 to 154 and 156 to 170: the branches of 32 and of 24 bits per pixel, the
  rows read from \<open>height - 1\<close> down to 0.
\<close>

definition raw_pixels ::
  "byte list \<Rightarrow> nat \<Rightarrow> nat \<Rightarrow> nat \<Rightarrow> nat \<Rightarrow> nat \<Rightarrow> error + nat list list list"
where
  "raw_pixels data offset dib_size width height n =
     collect (\<lambda>y. collect (\<lambda>x. unpack (replicate n 1)
                                   (slice (offset + dib_size + n * (y * width + x))
                                          (offset + dib_size + n * (y * width + x) + n) data))
                     [0..<width])
       (rev [0..<height])"

definition pixels32 :: "byte list \<Rightarrow> nat \<Rightarrow> nat \<Rightarrow> nat \<Rightarrow> nat \<Rightarrow> error + nat list list" where
  "pixels32 data offset dib_size width height =
     (case raw_pixels data offset dib_size width height 4 of
        Inl e \<Rightarrow> Inl e
      | Inr rows \<Rightarrow> Inr (map (\<lambda>row. concat (map (\<lambda>px. [px ! 2, px ! 1, px ! 0, px ! 3]) row)) rows))"

definition pixels24 :: "byte list \<Rightarrow> nat \<Rightarrow> nat \<Rightarrow> nat \<Rightarrow> nat \<Rightarrow> error + nat list list" where
  "pixels24 data offset dib_size width height =
     (case raw_pixels data offset dib_size width height 3 of
        Inl e \<Rightarrow> Inl e
      | Inr rows \<Rightarrow> Inr (map (\<lambda>row. concat (map (\<lambda>px. [px ! 2, px ! 1, px ! 0, 255]) row)) rows))"

section \<open>The conversion\<close>

text \<open>The eight bytes \<open>"\211PNG\r\n\032\n"\<close> of line 75.\<close>

definition png_signature :: "byte list" where
  "png_signature = [0x89, 0x50, 0x4E, 0x47, 0x0D, 0x0A, 0x1A, 0x0A]"

text \<open>Lines 84 to 87.\<close>

definition bmp_data_bytes :: "dib_header \<Rightarrow> nat \<Rightarrow> nat \<Rightarrow> nat" where
  "bmp_data_bytes dib width height =
     (if biSizeImage dib = 0 then width * height * biBitCount dib div 8 else biSizeImage dib)"

text \<open>Lines 88 to 172: the dispatch on \<open>bits_per_pixel\<close>.\<close>

definition dib_pixels ::
  "byte list \<Rightarrow> nat \<Rightarrow> nat \<Rightarrow> nat \<Rightarrow> nat \<Rightarrow> dib_header \<Rightarrow> error + nat list list"
where
  "dib_pixels data offset dib_size width height dib =
     (let bits_per_pixel = biBitCount dib in
      if bits_per_pixel \<le> 8 then
        indexed_pixels data offset dib_size width height bits_per_pixel
          (bmp_data_bytes dib width height)
      else if bits_per_pixel = 32 then pixels32 data offset dib_size width height
      else if bits_per_pixel = 24 then pixels24 data offset dib_size width height
      else Inl TypeError)"

text \<open>Lines 65 to 172, for the directory record chosen at line 62.\<close>

definition decode_image :: "byte list \<Rightarrow> nat list \<Rightarrow> error + image" where
  "decode_image data directory =
     (let width = directory ! 0; height = directory ! 1; offset = directory ! 7 in
      if slice offset (offset + 16) data = png_signature then Inr (Verbatim (drop offset data))
      else
        case unpack [4] (slice offset (offset + 4) data) of
          Inl e \<Rightarrow> Inl e
        | Inr r \<Rightarrow>
            let dib_size = r ! 0 in
            if dib_size \<noteq> 40 then Inl TypeError
            else
              (case unpack_dib (slice offset (offset + dib_size) data) of
                 Inl e \<Rightarrow> Inl e
               | Inr dib \<Rightarrow>
                   (case dib_pixels data offset dib_size width height dib of
                      Inl e \<Rightarrow> Inl e
                    | Inr pixels \<Rightarrow> Inr (Raster width height pixels))))"

definition decode :: "byte list \<Rightarrow> error + image" where
  "decode data =
     (case selected data of
        Inl e \<Rightarrow> Inl e
      | Inr directory \<Rightarrow> decode_image data directory)"

text \<open>
  \<open>ico2png\<close> itself.  The PNG writer of the \<open>png\<close> module is not part of the
  program: it is the parameter \<open>writer\<close>, which gets the width, the height and the
  rows and gives the encoded bytes or raises.
\<close>

definition ico2png ::
  "(nat \<Rightarrow> nat \<Rightarrow> nat list list \<Rightarrow> error + byte list) \<Rightarrow> byte list \<Rightarrow> error + byte list"
where
  "ico2png writer data =
     (case decode data of
        Inl e \<Rightarrow> Inl e
      | Inr (Verbatim bytes) \<Rightarrow> Inr bytes
      | Inr (Raster width height pixels) \<Rightarrow> writer width height pixels)"

section \<open>The order of the selection, and example files\<close>

text \<open>
  The comparison of the specification: \<open>(width, height, colorCount)\<close> triples in
  lexicographic order, the width first, then the height, then the colour count.
\<close>

definition triple_le :: "nat \<times> nat \<times> nat \<Rightarrow> nat \<times> nat \<times> nat \<Rightarrow> bool" where
  "triple_le a b =
     (case a of (w, h, c) \<Rightarrow> case b of (w', h', c') \<Rightarrow>
        w < w' \<or> (w = w' \<and> (h < h' \<or> (h = h' \<and> c \<le> c'))))"

text \<open>
  A header and a directory of two records: 16 by 16 pixels with 16 colours, then
  32 by 32 pixels with the colour count byte 0.
\<close>

definition two_icons :: "byte list" where
  "two_icons =
     [0, 0, 1, 0, 2, 0,
      16, 16, 16, 0, 1, 0, 4, 0, 0x28, 0x01, 0, 0, 0x26, 0, 0, 0,
      32, 32, 0, 0, 1, 0, 8, 0, 0xA8, 0x08, 0, 0, 0x4E, 0x01, 0, 0]"

text \<open>
  One image of 1 by 1 pixel and 32 bits per pixel: header, directory record (offset
  22), the 40 bytes of the bitmap header, and the pixel with the bytes 10, 20, 30, 7.
\<close>

definition icon_32bpp :: "byte list" where
  "icon_32bpp =
     [0, 0, 1, 0, 1, 0,
      1, 1, 0, 0, 1, 0, 32, 0, 44, 0, 0, 0, 22, 0, 0, 0,
      40, 0, 0, 0, 1, 0, 0, 0, 2, 0, 0, 0, 1, 0, 32, 0, 0, 0, 0, 0, 0, 0, 0, 0,
      0, 0, 0, 0, 0, 0, 0, 0, 0, 0, 0, 0, 0, 0, 0, 0,
      10, 20, 30, 7]"

text \<open>
  One image stored as a PNG: at offset 22 the signature, then the first eight bytes
  of the IHDR chunk.
\<close>

definition icon_png :: "byte list" where
  "icon_png =
     [0, 0, 1, 0, 1, 0,
      0, 0, 0, 0, 1, 0, 32, 0, 16, 0, 0, 0, 22, 0, 0, 0,
      0x89, 0x50, 0x4E, 0x47, 0x0D, 0x0A, 0x1A, 0x0A,
      0, 0, 0, 0x0D, 0x49, 0x48, 0x44, 0x52]"

text \<open>
  One image of 1 by 1 pixel whose bitmap header says 3 bits per pixel: eight palette
  entries, four bytes of XOR map (the first three bits are 101) and four bytes of AND
  map (all 0).
\<close>

definition icon_3bpp :: "byte list" where
  "icon_3bpp =
     [0, 0, 1, 0, 1, 0,
      1, 1, 8, 0, 1, 0, 3, 0, 80, 0, 0, 0, 22, 0, 0, 0,
      40, 0, 0, 0, 1, 0, 0, 0, 2, 0, 0, 0, 1, 0, 3, 0, 0, 0, 0, 0, 4, 0, 0, 0,
      0, 0, 0, 0, 0, 0, 0, 0, 0, 0, 0, 0, 0, 0, 0, 0,
      0, 0, 0, 0,  1, 1, 1, 0,  2, 2, 2, 0,  3, 3, 3, 0,
      4, 4, 4, 0,  30, 20, 10, 0,  6, 6, 6, 0,  7, 7, 7, 0,
      0xA0, 0, 0, 0,
      0, 0, 0, 0]"

text \<open>One image of 1 by 1 pixel and 16 bits per pixel.\<close>

definition icon_16bpp :: "byte list" where
  "icon_16bpp =
     [0, 0, 1, 0, 1, 0,
      1, 1, 0, 0, 1, 0, 16, 0, 42, 0, 0, 0, 22, 0, 0, 0,
      40, 0, 0, 0, 1, 0, 0, 0, 2, 0, 0, 0, 1, 0, 16, 0, 0, 0, 0, 0, 0, 0, 0, 0,
      0, 0, 0, 0, 0, 0, 0, 0, 0, 0, 0, 0, 0, 0, 0, 0,
      0xFF, 0x7F]"

text \<open>One image whose payload starts with a header size of 124, and is cut after 8 bytes.\<close>

definition icon_v5 :: "byte list" where
  "icon_v5 =
     [0, 0, 1, 0, 1, 0,
      1, 1, 0, 0, 1, 0, 32, 0, 128, 0, 0, 0, 22, 0, 0, 0,
      124, 0, 0, 0, 1, 0, 0, 0]"

text \<open>
  One image of 2 by 2 pixels and 1 bit per pixel: two palette entries (red, then
  green, each stored as blue, green, red, reserved), eight bytes of XOR map whose
  first bits are 1001, and eight bytes of AND map, four for each stored row: bit 1
  (stored row 0, \<open>x = 1\<close>) and bit 32 (stored row 1, \<open>x = 0\<close>) are 1.
\<close>

definition icon_1bpp :: "byte list" where
  "icon_1bpp =
     [0, 0, 1, 0, 1, 0,
      2, 2, 2, 0, 1, 0, 1, 0, 64, 0, 0, 0, 22, 0, 0, 0,
      40, 0, 0, 0, 2, 0, 0, 0, 4, 0, 0, 0, 1, 0, 1, 0, 0, 0, 0, 0, 8, 0, 0, 0,
      0, 0, 0, 0, 0, 0, 0, 0, 0, 0, 0, 0, 0, 0, 0, 0,
      0, 0, 255, 0,  0, 255, 0, 0,
      0x90, 0, 0, 0, 0, 0, 0, 0,
      0x40, 0, 0, 0, 0x80, 0, 0, 0]"

text \<open>
  Two directory records that differ in the width byte only, 255 in the first and 0
  in the second, both 1 pixel high with the payload at offset 38: a bitmap header of
  24 bits per pixel and 768 bytes of pixels, enough for one row of 256.
\<close>

definition icon_wide :: "byte list" where
  "icon_wide =
     [0, 0, 1, 0, 2, 0,
      255, 1, 0, 0, 1, 0, 24, 0, 0x28, 0x03, 0, 0, 38, 0, 0, 0,
      0, 1, 0, 0, 1, 0, 24, 0, 0x28, 0x03, 0, 0, 38, 0, 0, 0,
      40, 0, 0, 0, 0, 1, 0, 0, 2, 0, 0, 0, 1, 0, 24, 0, 0, 0, 0, 0, 0, 0, 0, 0,
      0, 0, 0, 0, 0, 0, 0, 0, 0, 0, 0, 0, 0, 0, 0, 0]
     @ replicate 768 0x7F"

section \<open>Slices, \<open>unpack\<close> and the header\<close>

lemma length_slice: "length (slice a b xs) = min (b - a) (length xs - a)"
  by (simp add: slice_def)

lemma slice_slice:
  "c \<le> d \<Longrightarrow> d \<le> n \<Longrightarrow> slice c d (slice a (a + n) xs) = slice (a + c) (a + d) xs"
  by (simp add: slice_def drop_take min_def add.commute)

lemma unpack_header:
  "6 \<le> length data \<Longrightarrow>
   unpack [2, 2, 2] (slice 0 6 data) =
     Inr [le_nat (slice 0 2 data), le_nat (slice 2 4 data), le_nat (slice 4 6 data)]"
  by (simp add: unpack_def slice_def drop_take min_def)

lemma unpack_header_short:
  "length data < 6 \<Longrightarrow> unpack [2, 2, 2] (slice 0 6 data) = Inl StructError"
  by (simp add: unpack_def slice_def)

lemma read_directories_short:
  "length data < 6 \<Longrightarrow> read_directories data = Inl TypeError"
  by (simp add: read_directories_def unpack_header_short)

lemma read_directories_long:
  "6 \<le> length data \<Longrightarrow>
   read_directories data =
     (if le_nat (slice 0 2 data) = 0 \<and> le_nat (slice 2 4 data) = 1
      then collect (read_directory data) [0..<le_nat (slice 4 6 data)]
      else Inl TypeError)"
proof -
  have "slice 0 2 [a, b, c] = [a, b]" for a b c :: nat
    by (simp add: slice_def)
  then show ?thesis if "6 \<le> length data"
    using that by (auto simp add: read_directories_def unpack_header)
qed

lemma selected_directories_error:
  "read_directories data = Inl e \<Longrightarrow> selected data = Inl e"
  by (simp add: selected_def)

lemma ico2png_selected_error:
  "selected data = Inl e \<Longrightarrow> ico2png writer data = Inl e"
  by (simp add: ico2png_def decode_def)

lemma max_directory_Nil: "max_directory [] = Inl ValueError"
  by (simp add: max_directory_def)

section \<open>The header is checked first\<close>

text \<open>
  Claim C8.  A buffer shorter than 6 bytes, or one whose first two little-endian
  16-bit fields are not 0 and 1, makes the conversion fail with the exception the
  source raises for a file that is not an ICO, \<open>TypeError\<close> (lines 45 and 47; it is
  the one exception class the source has for what the specification calls
  FormatError and UnsupportedFormatError).  The result is the error alone: the PNG
  writer is not reached and no bytes are returned.
\<close>

theorem header_rejected:
  assumes "length data < 6 \<or> le_nat (slice 0 2 data) \<noteq> 0 \<or> le_nat (slice 2 4 data) \<noteq> 1"
  shows "ico2png writer data = Inl TypeError"
proof -
  have "read_directories data = Inl TypeError"
  proof (cases "length data < 6")
    case True
    then show ?thesis by (rule read_directories_short)
  next
    case False
    with assms show ?thesis by (auto simp add: read_directories_long)
  qed
  then show ?thesis
    by (simp add: selected_directories_error ico2png_selected_error)
qed

text \<open>The first eight bytes of a BMP file: long enough, but the first field is not 0.\<close>

theorem header_rejected_witness:
  "(length [0x42, 0x4D, 0x46, 0, 0, 0, 0, 0 :: byte] < 6
      \<or> le_nat (slice 0 2 [0x42, 0x4D, 0x46, 0, 0, 0, 0, 0]) \<noteq> 0
      \<or> le_nat (slice 2 4 [0x42, 0x4D, 0x46, 0, 0, 0, 0, 0]) \<noteq> 1)
   \<and> ico2png (\<lambda>width height pixels. Inr []) [0x42, 0x4D, 0x46, 0, 0, 0, 0, 0] = Inl TypeError"
proof -
  have h: "length [0x42, 0x4D, 0x46, 0, 0, 0, 0, 0 :: byte] < 6
      \<or> le_nat (slice 0 2 [0x42, 0x4D, 0x46, 0, 0, 0, 0, 0]) \<noteq> 0
      \<or> le_nat (slice 2 4 [0x42, 0x4D, 0x46, 0, 0, 0, 0, 0]) \<noteq> 1"
    by (simp add: slice_def)
  from h header_rejected [OF h] show ?thesis by blast
qed

section \<open>A header that announces no image\<close>

text \<open>
  Claim C10.  When the first six bytes are the three little-endian 16-bit fields
  0, 1, 0, the list \<open>directories\<close> is empty and \<open>max\<close> raises \<open>ValueError\<close>
  (line 62): the conversion ends with an exception before any output, and the
  exception is not the \<open>TypeError\<close> that the source raises for its format errors.
\<close>

theorem no_images_value_error:
  assumes "6 \<le> length data"
    and "le_nat (slice 0 2 data) = 0" and "le_nat (slice 2 4 data) = 1"
    and "le_nat (slice 4 6 data) = 0"
  shows "ico2png writer data = Inl ValueError \<and> ValueError \<noteq> TypeError"
proof -
  from assms have "read_directories data = Inr []"
    by (simp add: read_directories_long)
  then have "selected data = Inl ValueError"
    by (simp add: selected_def max_directory_Nil)
  then show ?thesis
    by (simp add: ico2png_selected_error)
qed

theorem no_images_value_error_witness:
  "6 \<le> length [0, 0, 1, 0, 0, 0 :: byte]
   \<and> le_nat (slice 0 2 [0, 0, 1, 0, 0, 0]) = 0
   \<and> le_nat (slice 2 4 [0, 0, 1, 0, 0, 0]) = 1
   \<and> le_nat (slice 4 6 [0, 0, 1, 0, 0, 0]) = 0
   \<and> ico2png (\<lambda>width height pixels. Inr []) [0, 0, 1, 0, 0, 0] = Inl ValueError"
proof -
  have h: "6 \<le> length [0, 0, 1, 0, 0, 0 :: byte]"
    "le_nat (slice 0 2 [0, 0, 1, 0, 0, 0]) = 0"
    "le_nat (slice 2 4 [0, 0, 1, 0, 0, 0]) = 1"
    "le_nat (slice 4 6 [0, 0, 1, 0, 0, 0]) = 0"
    by (simp_all add: slice_def)
  from h no_images_value_error [OF h] show ?thesis by blast
qed

section \<open>Comprehensions that can raise\<close>

lemma collect_Inr:
  "collect f xs = Inr vs \<Longrightarrow> length vs = length xs \<and> (\<forall>i<length xs. f (xs ! i) = Inr (vs ! i))"
proof (induction xs arbitrary: vs)
  case Nil
  then show ?case by simp
next
  case (Cons x xs)
  from Cons.prems obtain v ws where v: "f x = Inr v" and ws: "collect f xs = Inr ws"
    and vs: "vs = v # ws"
    by (auto split: sum.splits)
  from Cons.IH [OF ws] v vs show ?case
    by (auto simp add: nth_Cons split: nat.splits)
qed

lemma collect_Inl:
  "collect f xs = Inl e \<Longrightarrow> \<exists>x\<in>set xs. f x = Inl e"
  by (induction xs) (auto split: sum.splits)

lemma collect_fails:
  assumes "x \<in> set xs" and "f x = Inl e'"
  shows "\<exists>e. collect f xs = Inl e"
  using assms by (induction xs) (auto split: sum.splits)

section \<open>A directory cut short\<close>

lemma read_directory_eq:
  "read_directory data i =
     (if length data < 6 + 16 * i + 16 then Inl StructError
      else Inr (normalise (fields [1, 1, 1, 1, 2, 2, 4, 4] (slice (6 + 16 * i) (6 + 16 * i + 16) data))))"
  by (auto simp add: read_directory_def unpack_def length_slice)

lemma read_directories_truncated:
  assumes "6 \<le> length data"
    and "le_nat (slice 0 2 data) = 0" and "le_nat (slice 2 4 data) = 1"
    and "length data < 6 + 16 * le_nat (slice 4 6 data)"
  shows "read_directories data = Inl StructError"
proof -
  define n where "n = le_nat (slice 4 6 data)"
  with assms have "0 < n" and short: "length data < 6 + 16 * (n - 1) + 16"
    by auto
  then have "n - 1 \<in> set [0..<n]" and "read_directory data (n - 1) = Inl StructError"
    by (simp_all add: read_directory_eq)
  then have "\<exists>e. collect (read_directory data) [0..<n] = Inl e"
    by (rule collect_fails)
  then obtain e where e: "collect (read_directory data) [0..<n] = Inl e" ..
  from collect_Inl [OF e] obtain i where "read_directory data i = Inl e" ..
  then have "e = StructError"
    by (simp add: read_directory_eq split: if_splits)
  with e assms show ?thesis
    by (simp add: read_directories_long n_def)
qed

text \<open>
  Claim C9.  The claim asks for the format error when the buffer has a valid header
  but fewer than \<open>6 + 16 * imageCount\<close> bytes.  The source guards only the
  \<open>unpack\<close> of the header with \<open>try\<close> (lines 42 to 45); the \<open>unpack\<close> of a
  directory record (line 55) is not guarded, so on such a buffer the conversion
  leaves with \<open>struct.error\<close>, not with \<open>TypeError\<close>.
\<close>

theorem truncated_directory_struct_error:
  assumes "6 \<le> length data"
    and "le_nat (slice 0 2 data) = 0" and "le_nat (slice 2 4 data) = 1"
    and "length data < 6 + 16 * le_nat (slice 4 6 data)"
  shows "ico2png writer data = Inl StructError \<and> StructError \<noteq> TypeError"
  using read_directories_truncated [OF assms]
  by (simp add: selected_directories_error ico2png_selected_error)

text \<open>A header that announces one image, and nothing after it.\<close>

theorem truncated_directory_struct_error_witness:
  "6 \<le> length [0, 0, 1, 0, 1, 0 :: byte]
   \<and> le_nat (slice 0 2 [0, 0, 1, 0, 1, 0]) = 0
   \<and> le_nat (slice 2 4 [0, 0, 1, 0, 1, 0]) = 1
   \<and> length [0, 0, 1, 0, 1, 0 :: byte] < 6 + 16 * le_nat (slice 4 6 [0, 0, 1, 0, 1, 0])
   \<and> ico2png (\<lambda>width height pixels. Inr []) [0, 0, 1, 0, 1, 0] = Inl StructError"
proof -
  have h: "6 \<le> length [0, 0, 1, 0, 1, 0 :: byte]"
    "le_nat (slice 0 2 [0, 0, 1, 0, 1, 0]) = 0"
    "le_nat (slice 2 4 [0, 0, 1, 0, 1, 0]) = 1"
    "length [0, 0, 1, 0, 1, 0 :: byte] < 6 + 16 * le_nat (slice 4 6 [0, 0, 1, 0, 1, 0])"
    by (simp_all add: slice_def)
  from h truncated_directory_struct_error [OF h] show ?thesis by blast
qed

section \<open>Directory records and their selection\<close>

lemma length_fields: "length (fields fmt bs) = length fmt"
  by (induction fmt arbitrary: bs) simp_all

lemma upt_0_3: "[0..<3] = [0, 1, 2]"
  by (simp add: numeral_3_eq_3 upt_rec)

lemma length_normalise: "length (normalise d) = length d"
  by (simp add: normalise_def upt_0_3)

lemma normalise_Cons:
  "normalise (a # b # c # rest) =
     (if a = 0 then 256 else a) # (if b = 0 then 256 else b) # (if c = 0 then 256 else c) # rest"
  by (simp add: normalise_def upt_0_3)

lemma nth_normalise:
  assumes "3 \<le> length d"
  shows "normalise d ! j = (if j < 3 \<and> d ! j = 0 then 256 else d ! j)"
proof -
  from assms obtain a b c rest where d: "d = a # b # c # rest"
    by (cases d; cases "tl d"; cases "tl (tl d)") auto
  consider "j = 0" | "j = 1" | "j = 2" | "3 \<le> j" by linarith
  then show ?thesis
  proof cases
    case 4
    then obtain k where "j = Suc (Suc (Suc k))"
      by (metis Suc_le_D Suc_le_mono numeral_3_eq_3)
    then show ?thesis by (simp add: d normalise_Cons)
  qed (simp_all add: d normalise_Cons)
qed

lemma read_directory_length:
  "read_directory data i = Inr d \<Longrightarrow> length d = 8"
  by (auto simp add: read_directory_eq length_normalise length_fields split: if_splits)

lemma read_directories_Inr:
  assumes "read_directories data = Inr directories"
  shows "\<forall>i<length directories. read_directory data i = Inr (directories ! i)"
proof -
  from assms have long: "6 \<le> length data"
    by (cases "6 \<le> length data") (simp_all add: read_directories_short)
  with assms have "collect (read_directory data) [0..<le_nat (slice 4 6 data)] = Inr directories"
    by (simp add: read_directories_long split: if_splits)
  from collect_Inr [OF this] show ?thesis by simp
qed

lemma read_directories_length:
  assumes "read_directories data = Inr directories" and "d \<in> set directories"
  shows "length d = 8"
proof -
  from assms(2) obtain i where "i < length directories" and "d = directories ! i"
    by (auto simp add: in_set_conv_nth)
  with read_directories_Inr [OF assms(1)] have "read_directory data i = Inr d"
    by simp
  then show ?thesis by (rule read_directory_length)
qed

lemma slice_0_3: "3 \<le> length d \<Longrightarrow> slice 0 3 d = [d ! 0, d ! 1, d ! 2]"
  by (cases d; cases "tl d"; cases "tl (tl d)") (auto simp add: slice_def)

lemma list_gt_key:
  "3 \<le> length d \<Longrightarrow> 3 \<le> length m \<Longrightarrow>
   list_gt (slice 0 3 d) (slice 0 3 m) = (\<not> triple_le (d ! 0, d ! 1, d ! 2) (m ! 0, m ! 1, m ! 2))"
  by (auto simp add: slice_0_3 triple_le_def)

lemma triple_le_refl: "triple_le a a"
  by (auto simp add: triple_le_def)

lemma triple_le_trans: "triple_le a b \<Longrightarrow> triple_le b c \<Longrightarrow> triple_le a c"
  by (auto simp add: triple_le_def)

lemma triple_le_total: "\<not> triple_le a b \<Longrightarrow> triple_le b a"
  by (auto simp add: triple_le_def)

lemma max_from_maximal:
  assumes "\<forall>e\<in>set (m # ds). 3 \<le> length e"
  shows "max_from m ds \<in> set (m # ds) \<and>
         (\<forall>e\<in>set (m # ds).
            triple_le (e ! 0, e ! 1, e ! 2)
              (max_from m ds ! 0, max_from m ds ! 1, max_from m ds ! 2))"
  using assms
proof (induction ds arbitrary: m)
  case Nil
  then show ?case by (simp add: triple_le_refl)
next
  case (Cons d ds)
  let ?k = "\<lambda>e. (e ! 0, e ! 1, e ! (2::nat)) :: nat \<times> nat \<times> nat"
  from Cons.prems have len: "3 \<le> length d" "3 \<le> length m" "\<forall>e\<in>set ds. 3 \<le> length e"
    by simp_all
  show ?case
  proof (cases "list_gt (slice 0 3 d) (slice 0 3 m)")
    case True
    then have r: "max_from m (d # ds) = max_from d ds" by simp
    from len have "\<forall>e\<in>set (d # ds). 3 \<le> length e" by simp
    from Cons.IH [OF this]
    have in_set: "max_from d ds \<in> set (d # ds)"
      and all: "\<forall>e\<in>set (d # ds). triple_le (?k e) (?k (max_from d ds))"
      by blast+
    from True len have "triple_le (?k m) (?k d)"
      by (simp add: list_gt_key triple_le_total)
    moreover from all have "triple_le (?k d) (?k (max_from d ds))" by simp
    ultimately have "triple_le (?k m) (?k (max_from d ds))"
      by (rule triple_le_trans)
    with in_set all r show ?thesis by simp
  next
    case False
    then have r: "max_from m (d # ds) = max_from m ds" by simp
    from len have "\<forall>e\<in>set (m # ds). 3 \<le> length e" by simp
    from Cons.IH [OF this]
    have in_set: "max_from m ds \<in> set (m # ds)"
      and all: "\<forall>e\<in>set (m # ds). triple_le (?k e) (?k (max_from m ds))"
      by blast+
    from False len have "triple_le (?k d) (?k m)"
      by (simp add: list_gt_key)
    moreover from all have "triple_le (?k m) (?k (max_from m ds))" by simp
    ultimately have "triple_le (?k d) (?k (max_from m ds))"
      by (rule triple_le_trans)
    with in_set all r show ?thesis by auto
  qed
qed

text \<open>
  Claim C6.  When the directory has at least one record, the record the conversion
  goes on with is one of the parsed (normalised) records, and its triple
  \<open>(width, height, colorCount)\<close> is greatest in the lexicographic order: no
  record has a larger width, none of the same width has a larger height, and none of
  the same width and height has a larger colour count.
\<close>

theorem selected_maximises_triple:
  assumes "read_directories data = Inr directories" and "directories \<noteq> []"
  shows "\<exists>d. selected data = Inr d \<and> d \<in> set directories \<and>
           (\<forall>e\<in>set directories. triple_le (e ! 0, e ! 1, e ! 2) (d ! 0, d ! 1, d ! 2))"
proof -
  from assms(2) obtain m ds where ds: "directories = m # ds"
    by (cases directories) auto
  have "\<forall>e\<in>set (m # ds). 3 \<le> length e"
    using read_directories_length [OF assms(1)] ds by simp
  from max_from_maximal [OF this] assms(1) ds show ?thesis
    by (simp add: selected_def max_directory_def)
qed

lemma two_icons_directories:
  "read_directories two_icons =
     Inr [[16, 16, 16, 0, 1, 4, 296, 38], [32, 32, 256, 0, 1, 8, 2216, 334]]"
  unfolding two_icons_def by code_simp

lemma two_icons_selected:
  "selected two_icons = Inr [32, 32, 256, 0, 1, 8, 2216, 334]"
  unfolding two_icons_def by code_simp

theorem selected_maximises_triple_witness:
  "read_directories two_icons =
     Inr [[16, 16, 16, 0, 1, 4, 296, 38], [32, 32, 256, 0, 1, 8, 2216, 334]]
   \<and> [[16, 16, 16, 0, 1, 4, 296, 38], [32, 32, 256, 0, 1, 8, 2216, 334 :: nat]] \<noteq> []
   \<and> selected two_icons = Inr [32, 32, 256, 0, 1, 8, 2216, 334]
   \<and> triple_le (16, 16, 16) (32, 32, 256)"
proof -
  have ne: "[[16, 16, 16, 0, 1, 4, 296, 38], [32, 32, 256, 0, 1, 8, 2216, 334 :: nat]] \<noteq> []"
    by simp
  from selected_maximises_triple [OF two_icons_directories ne]
  have "triple_le (16, 16, 16) (32, 32, 256)"
    by (simp add: two_icons_selected)
  with two_icons_directories two_icons_selected ne show ?thesis by simp
qed


lemma nth_slice: "a + k < length xs \<Longrightarrow> k < b - a \<Longrightarrow> slice a b xs ! k = xs ! (a + k)"
  by (simp add: slice_def)

lemma fields_first_bytes:
  assumes "3 \<le> length bs" and "j < 3"
  shows "fields (1 # 1 # 1 # fmt) bs ! j = unat (bs ! j)"
proof -
  from assms(1) obtain a b c rest where bs: "bs = a # b # c # rest"
    by (cases bs; cases "tl bs"; cases "tl (tl bs)") auto
  from assms(2) consider "j = 0" | "j = 1" | "j = 2" by linarith
  then show ?thesis by cases (simp_all add: bs)
qed

lemma max_from_mem: "max_from m ds \<in> set (m # ds)"
  by (induction ds arbitrary: m) (auto simp del: list_gt.simps)

lemma max_directory_mem: "max_directory ds = Inr d \<Longrightarrow> d \<in> set ds"
  using max_from_mem by (auto simp add: max_directory_def split: list.splits)

lemma decode_image_Raster:
  "decode_image data d = Inr (Raster w h pixels) \<Longrightarrow> w = d ! 0 \<and> h = d ! 1"
  by (auto simp add: decode_image_def Let_def split: if_splits sum.splits)

section \<open>The payload of the selected record\<close>

lemma unpack_4:
  "unpack [4] (slice offset (offset + 4) data) =
     (if length data < offset + 4 then Inl StructError
      else Inr [le_nat (slice offset (offset + 4) data)])"
  by (auto simp add: unpack_def length_slice slice_def)

lemma decode_selected:
  "selected data = Inr directory \<Longrightarrow> decode data = decode_image data directory"
  by (simp add: decode_def)

lemma ico2png_decode_error:
  "decode data = Inl e \<Longrightarrow> ico2png writer data = Inl e"
  by (simp add: ico2png_def)

lemma decode_image_wrong_size:
  assumes "slice (directory ! 7) (directory ! 7 + 16) data \<noteq> png_signature"
    and "directory ! 7 + 4 \<le> length data"
    and "le_nat (slice (directory ! 7) (directory ! 7 + 4) data) \<noteq> 40"
  shows "decode_image data directory = Inl TypeError"
  using assms by (simp add: decode_image_def unpack_4)

text \<open>
  Claim C7.  When the payload of the selected record does not pass the test for a
  PNG (line 75) and its first four bytes, read as a little-endian 32-bit number, are
  not 40, the conversion fails with \<open>TypeError\<close> (line 81), the exception of the
  source for an unsupported format.  Nothing is asked of the bytes after the first
  four: no other field of the bitmap header is read and no pixel is decoded.
\<close>

theorem dib_size_not_40_rejected:
  assumes "selected data = Inr directory"
    and "slice (directory ! 7) (directory ! 7 + 16) data \<noteq> png_signature"
    and "directory ! 7 + 4 \<le> length data"
    and "le_nat (slice (directory ! 7) (directory ! 7 + 4) data) \<noteq> 40"
  shows "ico2png writer data = Inl TypeError"
  using decode_image_wrong_size [OF assms(2-4)] assms(1)
  by (simp add: decode_selected ico2png_decode_error)

lemma icon_v5_selected: "selected icon_v5 = Inr [1, 1, 256, 0, 1, 32, 128, 22]"
  unfolding icon_v5_def by code_simp

theorem dib_size_not_40_rejected_witness:
  "selected icon_v5 = Inr [1, 1, 256, 0, 1, 32, 128, 22]
   \<and> slice 22 (22 + 16) icon_v5 \<noteq> png_signature
   \<and> 22 + 4 \<le> length icon_v5
   \<and> le_nat (slice 22 (22 + 4) icon_v5) = 124
   \<and> ico2png (\<lambda>width height pixels. Inr []) icon_v5 = Inl TypeError"
proof -
  let ?d = "[1, 1, 256, 0, 1, 32, 128, 22 :: nat]"
  have h1: "slice (?d ! 7) (?d ! 7 + 16) icon_v5 \<noteq> png_signature"
    and h2: "?d ! 7 + 4 \<le> length icon_v5"
    and v: "le_nat (slice (?d ! 7) (?d ! 7 + 4) icon_v5) = 124"
    unfolding icon_v5_def png_signature_def by (simp_all add: slice_def)
  from v have h3: "le_nat (slice (?d ! 7) (?d ! 7 + 4) icon_v5) \<noteq> 40" by simp
  from dib_size_not_40_rejected [OF icon_v5_selected h1 h2 h3] icon_v5_selected h1 h2 v
  show ?thesis by simp
qed

section \<open>The pixel depth\<close>

lemma unpack_dib_Inr:
  assumes "unpack_dib bs = Inr dib"
  shows "length bs = 40" and "biSize dib = le_nat (slice 0 4 bs)"
    and "biBitCount dib = le_nat (slice 14 16 bs)"
    and "biSizeImage dib = le_nat (slice 20 24 bs)"
  using assms by (auto simp add: unpack_dib_def split: if_splits)

lemma dib_in_file:
  assumes "unpack_dib (slice offset (offset + 40) data) = Inr dib"
  shows "offset + 40 \<le> length data"
    and "biSize dib = le_nat (slice offset (offset + 4) data)"
proof -
  from unpack_dib_Inr(1) [OF assms] show "offset + 40 \<le> length data"
    by (simp add: length_slice)
  from unpack_dib_Inr(2) [OF assms] slice_slice [of 0 4 40 offset data]
  show "biSize dib = le_nat (slice offset (offset + 4) data)"
    by simp
qed

lemma decode_image_dib:
  assumes "slice (directory ! 7) (directory ! 7 + 16) data \<noteq> png_signature"
    and "unpack_dib (slice (directory ! 7) (directory ! 7 + 40) data) = Inr dib"
    and "biSize dib = 40"
  shows "decode_image data directory =
           (case dib_pixels data (directory ! 7) 40 (directory ! 0) (directory ! 1) dib of
              Inl e \<Rightarrow> Inl e
            | Inr pixels \<Rightarrow> Inr (Raster (directory ! 0) (directory ! 1) pixels))"
  using assms dib_in_file [OF assms(2)]
  by (simp add: decode_image_def unpack_4 Let_def split: sum.splits)

lemma decode_image_Raster_dib:
  assumes "decode_image data directory = Inr (Raster width height pixels)"
  shows "\<exists>dib. unpack_dib (slice (directory ! 7) (directory ! 7 + 40) data) = Inr dib
           \<and> dib_pixels data (directory ! 7) 40 (directory ! 0) (directory ! 1) dib = Inr pixels
           \<and> width = directory ! 0 \<and> height = directory ! 1"
  using assms
  by (auto simp add: decode_image_def Let_def split: if_splits sum.splits)

lemma dib_pixels_other_depth:
  "8 < biBitCount dib \<Longrightarrow> biBitCount dib \<noteq> 32 \<Longrightarrow> biBitCount dib \<noteq> 24 \<Longrightarrow>
   dib_pixels data offset dib_size width height dib = Inl TypeError"
  by (simp add: dib_pixels_def)

text \<open>
  Claim C3, as amended.  The claim wants every depth outside 1, 2, 4, 8, 24, 32
  rejected.  The source tests \<open>bits_per_pixel <= 8\<close> first (line 88), so every
  depth up to 8, also 0, 3, 5, 6 and 7, takes the palette branch.  What holds is:
  a bitmap header of size 40 whose depth is greater than 8 and neither 24 nor 32
  (16, for example) makes the conversion fail with \<open>TypeError\<close> (line 172), and
  no pixel is produced.
\<close>

theorem depth_above_8_not_24_32_rejected:
  assumes "selected data = Inr directory"
    and "slice (directory ! 7) (directory ! 7 + 16) data \<noteq> png_signature"
    and "unpack_dib (slice (directory ! 7) (directory ! 7 + 40) data) = Inr dib"
    and "biSize dib = 40"
    and "8 < biBitCount dib" and "biBitCount dib \<noteq> 32" and "biBitCount dib \<noteq> 24"
  shows "ico2png writer data = Inl TypeError"
proof -
  from decode_image_dib [OF assms(2-4)] dib_pixels_other_depth [OF assms(5-7)]
  have "decode_image data directory = Inl TypeError" by simp
  with assms(1) show ?thesis
    by (simp add: decode_selected ico2png_decode_error)
qed

lemma icon_16bpp_selected: "selected icon_16bpp = Inr [1, 1, 256, 0, 1, 16, 42, 22]"
  unfolding icon_16bpp_def by code_simp

lemma icon_16bpp_dib:
  "unpack_dib (slice 22 62 icon_16bpp) =
     Inr \<lparr>biSize = 40, biWidth = 1, biHeight = 2, biPlanes = 1, biBitCount = 16,
          biCompression = 0, biSizeImage = 0, biXPelsPerMeter = 0, biYPelsPerMeter = 0,
          biClrUsed = 0, biClrImportant = 0\<rparr>"
  unfolding icon_16bpp_def by code_simp

theorem depth_above_8_not_24_32_rejected_witness:
  "selected icon_16bpp = Inr [1, 1, 256, 0, 1, 16, 42, 22]
   \<and> slice 22 (22 + 16) icon_16bpp \<noteq> png_signature
   \<and> unpack_dib (slice 22 62 icon_16bpp) =
       Inr \<lparr>biSize = 40, biWidth = 1, biHeight = 2, biPlanes = 1, biBitCount = 16,
            biCompression = 0, biSizeImage = 0, biXPelsPerMeter = 0, biYPelsPerMeter = 0,
            biClrUsed = 0, biClrImportant = 0\<rparr>
   \<and> ico2png (\<lambda>width height pixels. Inr []) icon_16bpp = Inl TypeError"
proof -
  let ?d = "[1, 1, 256, 0, 1, 16, 42, 22 :: nat]"
  let ?dib = "\<lparr>biSize = 40, biWidth = 1, biHeight = 2, biPlanes = 1, biBitCount = 16,
          biCompression = 0, biSizeImage = 0, biXPelsPerMeter = 0, biYPelsPerMeter = 0,
          biClrUsed = 0, biClrImportant = 0\<rparr>"
  have h1: "slice (?d ! 7) (?d ! 7 + 16) icon_16bpp \<noteq> png_signature"
    unfolding icon_16bpp_def png_signature_def by (simp add: slice_def)
  have h2: "unpack_dib (slice (?d ! 7) (?d ! 7 + 40) icon_16bpp) = Inr ?dib"
    using icon_16bpp_dib by simp
  have h3: "biSize ?dib = 40" "8 < biBitCount ?dib" "biBitCount ?dib \<noteq> 32" "biBitCount ?dib \<noteq> 24"
    by simp_all
  from depth_above_8_not_24_32_rejected [OF icon_16bpp_selected h1 h2 h3]
    icon_16bpp_selected h1 icon_16bpp_dib
  show ?thesis by simp
qed

text \<open>
  Claim C3 as stated fails: the bitmap header of \<open>icon_3bpp\<close> says 3 bits per
  pixel, and the conversion decodes it to one opaque pixel, the palette entry 5.
\<close>

theorem depth_3_is_decoded:
  "unpack_dib (slice 22 62 icon_3bpp) =
     Inr \<lparr>biSize = 40, biWidth = 1, biHeight = 2, biPlanes = 1, biBitCount = 3,
          biCompression = 0, biSizeImage = 4, biXPelsPerMeter = 0, biYPelsPerMeter = 0,
          biClrUsed = 0, biClrImportant = 0\<rparr>
   \<and> decode icon_3bpp = Inr (Raster 1 1 [[10, 20, 30, 255]])"
  unfolding icon_3bpp_def by code_simp


section \<open>An embedded PNG\<close>

lemma length_png_signature: "length png_signature = 8"
  by (simp add: png_signature_def)

lemma png_signature_size: "le_nat (slice 0 4 png_signature) \<noteq> 40"
  by (simp add: png_signature_def slice_def)

text \<open>
  Claim C2.  The claim wants the bytes from the offset on returned as they are when
  the eight bytes at the offset are the PNG signature.  Line 75 compares the slice
  \<open>data[offset:offset+16]\<close>, of up to sixteen bytes, with the signature of eight:
  they are equal only when the buffer ends with the signature.  When the signature
  is followed by at least one byte, as in every PNG, the test fails, the first four
  bytes of the signature are read as the size of a bitmap header, and the conversion
  fails with \<open>TypeError\<close> (line 81).
\<close>

theorem png_payload_rejected:
  assumes "selected data = Inr directory"
    and "slice (directory ! 7) (directory ! 7 + 8) data = png_signature"
    and "directory ! 7 + 8 < length data"
  shows "ico2png writer data = Inl TypeError"
proof -
  let ?offset = "directory ! 7"
  from assms(3) have "length (slice ?offset (?offset + 16) data) \<noteq> 8"
    by (simp add: length_slice)
  then have not_png: "slice ?offset (?offset + 16) data \<noteq> png_signature"
    using length_png_signature by metis
  from slice_slice [of 0 4 8 ?offset data] assms(2)
  have "slice ?offset (?offset + 4) data = slice 0 4 png_signature"
    by simp
  with png_signature_size
  have "le_nat (slice ?offset (?offset + 4) data) \<noteq> 40"
    by simp
  with not_png assms(3) have "decode_image data directory = Inl TypeError"
    by (simp add: decode_image_wrong_size)
  with assms(1) show ?thesis
    by (simp add: decode_selected ico2png_decode_error)
qed

lemma icon_png_selected: "selected icon_png = Inr [256, 256, 256, 0, 1, 32, 16, 22]"
  unfolding icon_png_def by code_simp

theorem png_payload_rejected_witness:
  "selected icon_png = Inr [256, 256, 256, 0, 1, 32, 16, 22]
   \<and> slice 22 (22 + 8) icon_png = png_signature
   \<and> 22 + 8 < length icon_png
   \<and> ico2png (\<lambda>width height pixels. Inr []) icon_png = Inl TypeError
   \<and> drop 22 icon_png =
       [0x89, 0x50, 0x4E, 0x47, 0x0D, 0x0A, 0x1A, 0x0A, 0, 0, 0, 0x0D, 0x49, 0x48, 0x44, 0x52]"
proof -
  let ?d = "[256, 256, 256, 0, 1, 32, 16, 22 :: nat]"
  have h1: "slice (?d ! 7) (?d ! 7 + 8) icon_png = png_signature"
    and h2: "?d ! 7 + 8 < length icon_png"
    and suffix: "drop 22 icon_png =
       [0x89, 0x50, 0x4E, 0x47, 0x0D, 0x0A, 0x1A, 0x0A, 0, 0, 0, 0x0D, 0x49, 0x48, 0x44, 0x52]"
    unfolding icon_png_def png_signature_def by (simp_all add: slice_def)
  from png_payload_rejected [OF icon_png_selected h1 h2] icon_png_selected h1 h2 suffix
  show ?thesis by simp
qed

section \<open>Direct colour: 32 bits per pixel\<close>

lemma concat_chunk:
  "\<forall>q\<in>set qs. length q = n \<Longrightarrow> x < length qs \<Longrightarrow>
   slice (n * x) (n * x + n) (concat qs) = qs ! x"
proof (induction qs arbitrary: x)
  case Nil
  then show ?case by simp
next
  case (Cons q qs)
  show ?case
  proof (cases x)
    case 0
    with Cons.prems show ?thesis by (simp add: slice_def)
  next
    case (Suc k)
    with Cons.prems have "slice (n * k) (n * k + n) (concat qs) = qs ! k"
      by (intro Cons.IH) simp_all
    with Cons.prems Suc show ?thesis by (simp add: slice_def)
  qed
qed

lemma fields_bytes:
  "n \<le> length bs \<Longrightarrow> fields (replicate n (Suc 0)) bs = map unat (take n bs)"
proof (induction n arbitrary: bs)
  case 0
  then show ?case by simp
next
  case (Suc n)
  then obtain b rest where "bs = b # rest" by (cases bs) auto
  with Suc show ?case by simp
qed

lemma sum_list_ones: "sum_list (replicate n (Suc 0)) = n"
  by (induction n) simp_all

lemma unpack_bytes:
  "unpack (replicate n (Suc 0)) bs =
     (if length bs \<noteq> n then Inl StructError else Inr (map unat bs))"
  by (simp add: unpack_def sum_list_ones fields_bytes)

lemma slice_full:
  assumes "length (slice p (p + n) data) = n" and "0 < n"
  shows "p + n \<le> length data"
  using assms by (simp add: length_slice min_def split: if_splits)

lemma raw_pixels_nth:
  assumes "raw_pixels data offset dib_size width height n = Inr rows"
    and "x < width" and "y < height" and "0 < n"
  shows "length rows = height" and "length (rows ! y) = width"
    and "rows ! y ! x =
           map unat (slice (offset + dib_size + n * ((height - 1 - y) * width + x))
                           (offset + dib_size + n * ((height - 1 - y) * width + x) + n) data)"
    and "offset + dib_size + n * ((height - 1 - y) * width + x) + n \<le> length data"
proof -
  let ?p = "\<lambda>y x. offset + dib_size + n * (y * width + x)"
  let ?f = "\<lambda>y x. unpack (replicate n 1) (slice (?p y x) (?p y x + n) data)"
  from assms(1) have rows: "collect (\<lambda>y. collect (?f y) [0..<width]) (rev [0..<height]) = Inr rows"
    by (simp add: raw_pixels_def)
  from collect_Inr [OF rows] show len: "length rows = height" by simp
  from assms(3) have src_row: "rev [0..<height] ! y = height - 1 - y"
    by (simp add: rev_nth)
  from collect_Inr [OF rows]
  have "\<forall>i<height. collect (?f (rev [0..<height] ! i)) [0..<width] = Inr (rows ! i)"
    by simp
  with assms(3) have "collect (?f (rev [0..<height] ! y)) [0..<width] = Inr (rows ! y)"
    by blast
  then have row: "collect (?f (height - 1 - y)) [0..<width] = Inr (rows ! y)"
    unfolding src_row .
  from collect_Inr [OF row] show "length (rows ! y) = width" by simp
  from collect_Inr [OF row] assms(2)
  have px: "?f (height - 1 - y) x = Inr (rows ! y ! x)" by simp
  then show "rows ! y ! x =
           map unat (slice (offset + dib_size + n * ((height - 1 - y) * width + x))
                           (offset + dib_size + n * ((height - 1 - y) * width + x) + n) data)"
    by (simp add: unpack_bytes split: if_splits)
  from px have "length (slice (?p (height - 1 - y) x) (?p (height - 1 - y) x + n) data) = n"
    by (simp add: unpack_bytes split: if_splits)
  then show "offset + dib_size + n * ((height - 1 - y) * width + x) + n \<le> length data"
    using assms(4) by (rule slice_full)
qed

lemma pixels32_quad:
  assumes "pixels32 data offset dib_size width height = Inr pixels"
    and "x < width" and "y < height"
  shows "slice (4 * x) (4 * x + 4) (pixels ! y) =
           (let p = offset + dib_size + 4 * ((height - 1 - y) * width + x)
            in [unat (data ! (p + 2)), unat (data ! (p + 1)), unat (data ! p), unat (data ! (p + 3))])"
proof -
  let ?g = "\<lambda>px :: nat list. [px ! 2, px ! 1, px ! 0, px ! 3]"
  let ?p = "offset + dib_size + 4 * ((height - 1 - y) * width + x)"
  from assms(1) obtain rows
    where rows: "raw_pixels data offset dib_size width height 4 = Inr rows"
      and pixels: "pixels = map (\<lambda>row. concat (map ?g row)) rows"
    by (auto simp add: pixels32_def split: sum.splits)
  have four: "(0::nat) < 4" by simp
  note facts = raw_pixels_nth [OF rows assms(2) assms(3) four]
  from facts(1) assms(3) have "pixels ! y = concat (map ?g (rows ! y))"
    by (simp add: pixels)
  moreover have "slice (4 * x) (4 * x + 4) (concat (map ?g (rows ! y))) = map ?g (rows ! y) ! x"
    using facts(2) assms(2) by (intro concat_chunk) simp_all
  moreover from facts(2) assms(2) have "map ?g (rows ! y) ! x = ?g (rows ! y ! x)"
    by simp
  moreover have "?g (map unat (slice ?p (?p + 4) data)) =
      [unat (data ! (?p + 2)), unat (data ! (?p + 1)), unat (data ! ?p), unat (data ! (?p + 3))]"
  proof -
    have byte: "map unat (slice ?p (?p + 4) data) ! k = unat (data ! (?p + k))"
      if "k < 4" for k
      using that facts(4) by (simp add: length_slice nth_slice)
    from byte [of 0] byte [of 1] byte [of 2] byte [of 3] show ?thesis by simp
  qed
  ultimately show ?thesis
    by (simp add: facts(3) Let_def)
qed

lemma dib_pixels_32:
  "biBitCount dib = 32 \<Longrightarrow>
   dib_pixels data offset dib_size width height dib = pixels32 data offset dib_size width height"
  by (simp add: dib_pixels_def)

text \<open>
  Claim C1, as amended.  The claim wants the alpha channel of every pixel of a
  32-bit image to be 255.  Line 151 emits \<open>(px[2], px[1], px[0], px[3])\<close>: the
  fourth byte of the source pixel is the alpha channel of the output.  What holds
  is: for an image of 32 bits per pixel, the four channels of the output pixel
  \<open>(x, y)\<close> are the third, second, first and fourth byte of the source pixel
  \<open>(x, height - 1 - y)\<close>, which starts \<open>4 * ((height - 1 - y) * width + x)\<close> bytes
  after the bitmap header.
\<close>

theorem alpha_is_fourth_source_byte:
  assumes "selected data = Inr directory"
    and "unpack_dib (slice (directory ! 7) (directory ! 7 + 40) data) = Inr dib"
    and "biBitCount dib = 32"
    and "decode data = Inr (Raster width height pixels)"
    and "x < width" and "y < height"
  shows "slice (4 * x) (4 * x + 4) (pixels ! y) =
           (let p = directory ! 7 + 40 + 4 * ((height - 1 - y) * width + x)
            in [unat (data ! (p + 2)), unat (data ! (p + 1)), unat (data ! p), unat (data ! (p + 3))])"
proof -
  from assms(1,4) have "decode_image data directory = Inr (Raster width height pixels)"
    by (simp add: decode_selected)
  from decode_image_Raster_dib [OF this] assms(2,3)
  have "pixels32 data (directory ! 7) 40 width height = Inr pixels"
    by (auto simp add: dib_pixels_32)
  from pixels32_quad [OF this assms(5,6)] show ?thesis .
qed

lemma icon_32bpp_selected: "selected icon_32bpp = Inr [1, 1, 256, 0, 1, 32, 44, 22]"
  unfolding icon_32bpp_def by code_simp

lemma icon_32bpp_dib:
  "unpack_dib (slice 22 62 icon_32bpp) =
     Inr \<lparr>biSize = 40, biWidth = 1, biHeight = 2, biPlanes = 1, biBitCount = 32,
          biCompression = 0, biSizeImage = 0, biXPelsPerMeter = 0, biYPelsPerMeter = 0,
          biClrUsed = 0, biClrImportant = 0\<rparr>"
  unfolding icon_32bpp_def by code_simp

lemma icon_32bpp_decoded: "decode icon_32bpp = Inr (Raster 1 1 [[30, 20, 10, 7]])"
  unfolding icon_32bpp_def by code_simp

theorem alpha_is_fourth_source_byte_witness:
  "selected icon_32bpp = Inr [1, 1, 256, 0, 1, 32, 44, 22]
   \<and> unpack_dib (slice 22 62 icon_32bpp) =
       Inr \<lparr>biSize = 40, biWidth = 1, biHeight = 2, biPlanes = 1, biBitCount = 32,
            biCompression = 0, biSizeImage = 0, biXPelsPerMeter = 0, biYPelsPerMeter = 0,
            biClrUsed = 0, biClrImportant = 0\<rparr>
   \<and> decode icon_32bpp = Inr (Raster 1 1 [[30, 20, 10, 7]])
   \<and> slice 0 4 ([[30, 20, 10, 7]] ! 0) =
       [unat (icon_32bpp ! 64), unat (icon_32bpp ! 63), unat (icon_32bpp ! 62),
        unat (icon_32bpp ! 65)]"
proof -
  let ?d = "[1, 1, 256, 0, 1, 32, 44, 22 :: nat]"
  let ?dib = "\<lparr>biSize = 40, biWidth = 1, biHeight = 2, biPlanes = 1, biBitCount = 32,
          biCompression = 0, biSizeImage = 0, biXPelsPerMeter = 0, biYPelsPerMeter = 0,
          biClrUsed = 0, biClrImportant = 0\<rparr>"
  have h2: "unpack_dib (slice (?d ! 7) (?d ! 7 + 40) icon_32bpp) = Inr ?dib"
    using icon_32bpp_dib by simp
  have h3: "biBitCount ?dib = 32" by simp
  have h5: "(0::nat) < 1" by simp
  from alpha_is_fourth_source_byte [OF icon_32bpp_selected h2 h3 icon_32bpp_decoded h5 h5]
  have "slice 0 4 ([[30, 20, 10, 7]] ! 0) =
       [unat (icon_32bpp ! 64), unat (icon_32bpp ! 63), unat (icon_32bpp ! 62),
        unat (icon_32bpp ! 65)]"
    by (simp add: Let_def)
  with icon_32bpp_selected icon_32bpp_dib icon_32bpp_decoded show ?thesis by simp
qed

text \<open>
  Claim C1 as stated fails: the pixel of \<open>icon_32bpp\<close> has the bytes 10, 20, 30, 7
  and the output pixel is (30, 20, 10, 7), with alpha 7 and not 255.
\<close>

theorem alpha_255_counterexample:
  "unpack_dib (slice 22 62 icon_32bpp) =
     Inr \<lparr>biSize = 40, biWidth = 1, biHeight = 2, biPlanes = 1, biBitCount = 32,
          biCompression = 0, biSizeImage = 0, biXPelsPerMeter = 0, biYPelsPerMeter = 0,
          biClrUsed = 0, biClrImportant = 0\<rparr>
   \<and> decode icon_32bpp = Inr (Raster 1 1 [[30, 20, 10, 7]])
   \<and> [[30, 20, 10, 7]] ! 0 ! 3 \<noteq> (255::nat)"
  using icon_32bpp_dib icon_32bpp_decoded by simp

section \<open>Palette images and the AND map\<close>

lemma read_palette_length:
  "read_palette data offset dib_size color_count = Inr palette \<Longrightarrow>
   \<forall>c\<in>set palette. length c = 3"
  by (auto simp add: read_palette_def split: sum.splits)

lemma get_pixel_length:
  assumes "\<forall>c\<in>set palette. length c = 3"
    and "get_pixel palette xor_bits and_bits width height bits_per_pixel x y = Inr quad"
  shows "length quad = 4"
  using assms by (auto simp add: get_pixel_def Let_def split: if_splits)

lemma bitlist_bits: "b \<in> set (bitlist n) \<Longrightarrow> b = 0 \<or> b = 1"
  by (auto simp add: bitlist_def)

lemma and_data_bits_bits:
  "i < length (and_data_bits data offset dib_size color_count bmp_bytes width height) \<Longrightarrow>
   and_data_bits data offset dib_size color_count bmp_bytes width height ! i = 0
   \<or> and_data_bits data offset dib_size color_count bmp_bytes width height ! i = 1"
  using bitlist_bits by (fastforce simp add: and_data_bits_def dest!: nth_mem)

lemma indexed_pixels_quad:
  assumes "indexed_pixels data offset dib_size width height bits_per_pixel bmp_bytes = Inr pixels"
    and "x < width" and "y < height"
  shows "\<exists>palette.
           read_palette data offset dib_size (2 ^ bits_per_pixel) = Inr palette
           \<and> get_pixel palette
                (xor_data_bits data offset dib_size (2 ^ bits_per_pixel) bmp_bytes)
                (and_data_bits data offset dib_size (2 ^ bits_per_pixel) bmp_bytes width height)
                width height bits_per_pixel x y
              = Inr (slice (4 * x) (4 * x + 4) (pixels ! y))"
proof -
  let ?xor = "xor_data_bits data offset dib_size (2 ^ bits_per_pixel) bmp_bytes"
  let ?and = "and_data_bits data offset dib_size (2 ^ bits_per_pixel) bmp_bytes width height"
  from assms(1) obtain palette
    where palette: "read_palette data offset dib_size (2 ^ bits_per_pixel) = Inr palette"
      and rows: "collect (\<lambda>y.
               case collect (\<lambda>x. get_pixel palette ?xor ?and width height bits_per_pixel x y)
                      [0..<width] of
                 Inl e \<Rightarrow> Inl e
               | Inr quads \<Rightarrow> Inr (concat quads))
             [0..<height] = Inr pixels"
    by (auto simp add: indexed_pixels_def Let_def split: sum.splits)
  let ?gp = "\<lambda>y x. get_pixel palette ?xor ?and width height bits_per_pixel x y"
  from collect_Inr [OF rows] assms(3)
  have "(case collect (?gp y) [0..<width] of Inl e \<Rightarrow> Inl e | Inr quads \<Rightarrow> Inr (concat quads))
          = Inr (pixels ! y)"
    by simp
  then obtain quads where quads: "collect (?gp y) [0..<width] = Inr quads"
    and row: "pixels ! y = concat quads"
    by (auto split: sum.splits)
  from collect_Inr [OF quads] have len: "length quads = width"
    and each: "\<forall>j<width. ?gp y j = Inr (quads ! j)"
    by simp_all
  have "\<forall>q\<in>set quads. length q = 4"
  proof
    fix q assume "q \<in> set quads"
    then obtain j where "j < width" and "q = quads ! j"
      using len by (auto simp add: in_set_conv_nth)
    with each have "?gp y j = Inr q" by simp
    with read_palette_length [OF palette] show "length q = 4"
      by (rule get_pixel_length)
  qed
  then have "slice (4 * x) (4 * x + 4) (concat quads) = quads ! x"
    using assms(2) len by (intro concat_chunk) simp_all
  with each assms(2) row palette show ?thesis by simp
qed

lemma dib_pixels_indexed:
  "biBitCount dib \<le> 8 \<Longrightarrow>
   dib_pixels data offset dib_size width height dib =
     indexed_pixels data offset dib_size width height (biBitCount dib)
       (bmp_data_bytes dib width height)"
  by (simp add: dib_pixels_def)

text \<open>
  Claim C4.  For an image of at most 8 bits per pixel that the conversion decodes,
  and every pixel \<open>(x, y)\<close> of the output: the bit of the AND map at index
  \<open>srcRow * rowStrideBits + x\<close>, with \<open>srcRow = height - y - 1\<close> and
  \<open>rowStrideBits = (((width + 31) >> 5) << 2) * 8\<close> (the shifts are \<open>drop_bit 5\<close>
  and \<open>push_bit 2\<close>), exists and is 0 or 1.  When it is 1 the four channels of the
  pixel are 0, 0, 0, 0, whatever the XOR map holds there; otherwise they are the
  palette colour at the index read from the XOR map, followed by 255.
\<close>

theorem and_mask_decides_pixel:
  assumes "selected data = Inr directory"
    and "unpack_dib (slice (directory ! 7) (directory ! 7 + 40) data) = Inr dib"
    and "biBitCount dib \<le> 8"
    and "decode data = Inr (Raster width height pixels)"
    and "x < width" and "y < height"
  shows "let offset = directory ! 7;
             bpp = biBitCount dib;
             bmp_bytes = bmp_data_bytes dib width height;
             mask_bits = and_data_bits data offset 40 (2 ^ bpp) bmp_bytes width height;
             xor_bits = xor_data_bits data offset 40 (2 ^ bpp) bmp_bytes;
             srcRow = height - y - 1;
             rowStrideBits = push_bit 2 (drop_bit 5 (width + 31)) * 8;
             i = srcRow * rowStrideBits + x;
             v = bitlistvalue (slice (bpp * (srcRow * width + x))
                                     (bpp * (srcRow * width + x) + bpp) xor_bits);
             quad = slice (4 * x) (4 * x + 4) (pixels ! y)
         in \<exists>palette.
              read_palette data offset 40 (2 ^ bpp) = Inr palette
              \<and> i < length mask_bits
              \<and> (mask_bits ! i = 0 \<or> mask_bits ! i = 1)
              \<and> (if mask_bits ! i = 1 then quad = [0, 0, 0, 0]
                  else v < length palette \<and> quad = palette ! v @ [255])"
proof -
  let ?offset = "directory ! 7"
  let ?bpp = "biBitCount dib"
  let ?bmp = "bmp_data_bytes dib width height"
  let ?mask = "and_data_bits data ?offset 40 (2 ^ ?bpp) ?bmp width height"
  let ?xor = "xor_data_bits data ?offset 40 (2 ^ ?bpp) ?bmp"
  let ?i = "(height - y - 1) * (push_bit 2 (drop_bit 5 (width + 31)) * 8) + x"
  from assms(1,4) have "decode_image data directory = Inr (Raster width height pixels)"
    by (simp add: decode_selected)
  from decode_image_Raster_dib [OF this] assms(2,3)
  have "indexed_pixels data ?offset 40 width height ?bpp ?bmp = Inr pixels"
    by (auto simp add: dib_pixels_indexed)
  from indexed_pixels_quad [OF this assms(5,6)] obtain palette
    where palette: "read_palette data ?offset 40 (2 ^ ?bpp) = Inr palette"
      and gp: "get_pixel palette ?xor ?mask width height ?bpp x y
                 = Inr (slice (4 * x) (4 * x + 4) (pixels ! y))"
    by blast
  have i: "(height - y - 1) * and_row_size width * 8 + x = ?i"
    by (simp add: and_row_size_def push_bit_eq_mult drop_bit_eq_div)
  from gp have in_range: "?i < length ?mask"
    unfolding get_pixel_def i by (simp add: Let_def split: if_splits)
  from in_range have bit: "?mask ! ?i = 0 \<or> ?mask ! ?i = 1"
    by (rule and_data_bits_bits)
  from gp in_range
  have "if ?mask ! ?i = 1 then slice (4 * x) (4 * x + 4) (pixels ! y) = [0, 0, 0, 0]
        else bitlistvalue (slice (?bpp * ((height - y - 1) * width + x))
                                 (?bpp * ((height - y - 1) * width + x) + ?bpp) ?xor)
               < length palette
             \<and> slice (4 * x) (4 * x + 4) (pixels ! y) =
                 palette ! bitlistvalue (slice (?bpp * ((height - y - 1) * width + x))
                                 (?bpp * ((height - y - 1) * width + x) + ?bpp) ?xor) @ [255]"
    unfolding get_pixel_def i by (auto simp add: Let_def split: if_splits)
  with palette in_range bit show ?thesis
    unfolding Let_def by blast
qed

lemma icon_1bpp_selected: "selected icon_1bpp = Inr [2, 2, 2, 0, 1, 1, 64, 22]"
  unfolding icon_1bpp_def by code_simp

lemma icon_1bpp_dib:
  "unpack_dib (slice 22 62 icon_1bpp) =
     Inr \<lparr>biSize = 40, biWidth = 2, biHeight = 4, biPlanes = 1, biBitCount = 1,
          biCompression = 0, biSizeImage = 8, biXPelsPerMeter = 0, biYPelsPerMeter = 0,
          biClrUsed = 0, biClrImportant = 0\<rparr>"
  unfolding icon_1bpp_def by code_simp

lemma icon_1bpp_decoded:
  "decode icon_1bpp =
     Inr (Raster 2 2 [[0, 0, 0, 0, 0, 255, 0, 255], [0, 255, 0, 255, 0, 0, 0, 0]])"
  unfolding icon_1bpp_def by code_simp

lemma icon_1bpp_mask:
  "and_data_bits icon_1bpp 22 40 2 8 2 2 ! 32 = 1"
  "and_data_bits icon_1bpp 22 40 2 8 2 2 ! 33 = 0"
  "and_data_bits icon_1bpp 22 40 2 8 2 2 ! 16 = 0"
  unfolding icon_1bpp_def by code_simp+

lemma icon_1bpp_palette: "read_palette icon_1bpp 22 40 2 = Inr [[255, 0, 0], [0, 255, 0]]"
  unfolding icon_1bpp_def by code_simp

lemma icon_1bpp_index: "bitlistvalue (slice 3 4 (xor_data_bits icon_1bpp 22 40 2 8)) = 1"
  unfolding icon_1bpp_def by code_simp

text \<open>
  The two pixels of the top row of \<open>icon_1bpp\<close>, which is the stored row 1, so
  that the row stride counts: the mask bit of \<open>(0, 0)\<close> is bit 32 and is 1, that
  of \<open>(1, 0)\<close> is bit 33 and is 0 (bit 16, where a stride of \<open>width * 8\<close> would
  look for the first of them, is 0).
\<close>

theorem and_mask_decides_pixel_witness:
  "selected icon_1bpp = Inr [2, 2, 2, 0, 1, 1, 64, 22]
   \<and> unpack_dib (slice 22 62 icon_1bpp) =
       Inr \<lparr>biSize = 40, biWidth = 2, biHeight = 4, biPlanes = 1, biBitCount = 1,
            biCompression = 0, biSizeImage = 8, biXPelsPerMeter = 0, biYPelsPerMeter = 0,
            biClrUsed = 0, biClrImportant = 0\<rparr>
   \<and> decode icon_1bpp =
       Inr (Raster 2 2 [[0, 0, 0, 0, 0, 255, 0, 255], [0, 255, 0, 255, 0, 0, 0, 0]])
   \<and> (2 - 0 - 1) * (push_bit 2 (drop_bit 5 (2 + 31)) * 8) + 0 = (32::nat)
   \<and> and_data_bits icon_1bpp 22 40 2 8 2 2 ! 32 = 1
   \<and> and_data_bits icon_1bpp 22 40 2 8 2 2 ! 16 = 0
   \<and> slice 0 4 ([[0, 0, 0, 0, 0, 255, 0, 255], [0, 255, 0, 255, 0, 0, 0, 0]] ! 0)
       = [0, 0, 0, (0::nat)]
   \<and> and_data_bits icon_1bpp 22 40 2 8 2 2 ! 33 = 0
   \<and> slice 4 8 ([[0, 0, 0, 0, 0, 255, 0, 255], [0, 255, 0, 255, 0, 0, 0, 0]] ! 0)
       = [0, 255, 0] @ [255::nat]"
proof -
  let ?d = "[2, 2, 2, 0, 1, 1, 64, 22 :: nat]"
  let ?dib = "\<lparr>biSize = 40, biWidth = 2, biHeight = 4, biPlanes = 1, biBitCount = 1,
          biCompression = 0, biSizeImage = 8, biXPelsPerMeter = 0, biYPelsPerMeter = 0,
          biClrUsed = 0, biClrImportant = 0\<rparr>"
  have h2: "unpack_dib (slice (?d ! 7) (?d ! 7 + 40) icon_1bpp) = Inr ?dib"
    using icon_1bpp_dib by simp
  have h3: "biBitCount ?dib \<le> 8" by simp
  have x0: "(0::nat) < 2" and x1: "(1::nat) < 2" by simp_all
  have stride: "(2 - 0 - 1) * (push_bit 2 (drop_bit 5 (2 + 31)) * 8) + 0 = (32::nat)"
    by (simp add: push_bit_eq_mult drop_bit_eq_div)
  from and_mask_decides_pixel [OF icon_1bpp_selected h2 h3 icon_1bpp_decoded x0 x0]
    icon_1bpp_mask
  have transparent:
    "slice 0 4 ([[0, 0, 0, 0, 0, 255, 0, 255], [0, 255, 0, 255, 0, 0, 0, 0]] ! 0)
       = [0, 0, 0, (0::nat)]"
    by (simp add: Let_def bmp_data_bytes_def push_bit_eq_mult drop_bit_eq_div)
  have index: "bitlistvalue (slice (Suc (Suc (Suc 0))) 4 (xor_data_bits icon_1bpp 22 40 2 8)) = 1"
    using icon_1bpp_index by (simp add: numeral_3_eq_3)
  from and_mask_decides_pixel [OF icon_1bpp_selected h2 h3 icon_1bpp_decoded x1 x0]
    icon_1bpp_mask icon_1bpp_palette index
  have opaque:
    "slice 4 8 ([[0, 0, 0, 0, 0, 255, 0, 255], [0, 255, 0, 255, 0, 0, 0, 0]] ! 0)
       = [0, 255, 0] @ [255::nat]"
    by (simp add: Let_def bmp_data_bytes_def push_bit_eq_mult drop_bit_eq_div)
  from icon_1bpp_selected icon_1bpp_dib icon_1bpp_decoded stride icon_1bpp_mask
    transparent opaque
  show ?thesis by (intro conjI)
qed

section \<open>The normalised fields in the selection and in the decoding\<close>

lemma collect_succeeds:
  "\<forall>x\<in>set xs. \<exists>v. f x = Inr v \<Longrightarrow> \<exists>vs. collect f xs = Inr vs"
  by (induction xs) (auto split: sum.splits)

lemma collect_results:
  "collect f xs = Inr vs \<Longrightarrow> v \<in> set vs \<Longrightarrow> \<exists>x\<in>set xs. f x = Inr v"
proof -
  assume vs: "collect f xs = Inr vs" and "v \<in> set vs"
  then obtain k where "k < length vs" and "v = vs ! k"
    by (auto simp add: in_set_conv_nth)
  with collect_Inr [OF vs] have "k < length xs" and "f (xs ! k) = Inr v"
    by simp_all
  then show ?thesis
    using nth_mem by blast
qed

lemma length_concat_chunks:
  "\<forall>q\<in>set qs. length q = n \<Longrightarrow> length (concat qs) = n * length qs"
  by (induction qs) simp_all

lemma raw_pixels_lengths:
  assumes "raw_pixels data offset dib_size width height n = Inr rows"
  shows "length rows = height" and "\<forall>row\<in>set rows. length row = width"
proof -
  let ?f = "\<lambda>y x. unpack (replicate n 1)
                     (slice (offset + dib_size + n * (y * width + x))
                            (offset + dib_size + n * (y * width + x) + n) data)"
  from assms have rows: "collect (\<lambda>y. collect (?f y) [0..<width]) (rev [0..<height]) = Inr rows"
    by (simp add: raw_pixels_def)
  from collect_Inr [OF rows] show "length rows = height" by simp
  show "\<forall>row\<in>set rows. length row = width"
  proof
    fix row assume "row \<in> set rows"
    with collect_results [OF rows] obtain y where "collect (?f y) [0..<width] = Inr row"
      by blast
    from collect_Inr [OF this] show "length row = width" by simp
  qed
qed

lemma direct_pixels_lengths:
  assumes "raw_pixels data offset dib_size width height n = Inr rows"
    and "\<forall>px. length (g px) = 4"
  shows "length (map (\<lambda>row. concat (map g row)) rows) = height"
    and "\<forall>row\<in>set (map (\<lambda>row. concat (map g row)) rows). length row = 4 * width"
proof -
  from raw_pixels_lengths(1) [OF assms(1)]
  show "length (map (\<lambda>row. concat (map g row)) rows) = height" by simp
  show "\<forall>row\<in>set (map (\<lambda>row. concat (map g row)) rows). length row = 4 * width"
  proof
    fix r assume "r \<in> set (map (\<lambda>row. concat (map g row)) rows)"
    then obtain row where row: "row \<in> set rows" and r: "r = concat (map g row)"
      by auto
    from assms(2) have "\<forall>q\<in>set (map g row). length q = 4" by simp
    then have "length (concat (map g row)) = 4 * length (map g row)"
      by (rule length_concat_chunks)
    with raw_pixels_lengths(2) [OF assms(1)] row r show "length r = 4 * width"
      by simp
  qed
qed

lemma pixels32_lengths:
  assumes "pixels32 data offset dib_size width height = Inr pixels"
  shows "length pixels = height \<and> (\<forall>row\<in>set pixels. length row = 4 * width)"
proof -
  let ?g = "\<lambda>px :: nat list. [px ! 2, px ! 1, px ! 0, px ! 3]"
  from assms obtain rows
    where rows: "raw_pixels data offset dib_size width height 4 = Inr rows"
      and pixels: "pixels = map (\<lambda>row. concat (map ?g row)) rows"
    by (auto simp add: pixels32_def split: sum.splits)
  have "\<forall>px. length (?g px) = 4" by simp
  from direct_pixels_lengths [OF rows this] pixels show ?thesis by blast
qed

lemma pixels24_lengths:
  assumes "pixels24 data offset dib_size width height = Inr pixels"
  shows "length pixels = height \<and> (\<forall>row\<in>set pixels. length row = 4 * width)"
proof -
  let ?g = "\<lambda>px :: nat list. [px ! 2, px ! 1, px ! 0, 255]"
  from assms obtain rows
    where rows: "raw_pixels data offset dib_size width height 3 = Inr rows"
      and pixels: "pixels = map (\<lambda>row. concat (map ?g row)) rows"
    by (auto simp add: pixels24_def split: sum.splits)
  have "\<forall>px. length (?g px) = 4" by simp
  from direct_pixels_lengths [OF rows this] pixels show ?thesis by blast
qed

lemma indexed_pixels_lengths:
  assumes "indexed_pixels data offset dib_size width height bits_per_pixel bmp_bytes = Inr pixels"
  shows "length pixels = height \<and> (\<forall>row\<in>set pixels. length row = 4 * width)"
proof -
  let ?xor = "xor_data_bits data offset dib_size (2 ^ bits_per_pixel) bmp_bytes"
  let ?and = "and_data_bits data offset dib_size (2 ^ bits_per_pixel) bmp_bytes width height"
  from assms obtain palette
    where palette: "read_palette data offset dib_size (2 ^ bits_per_pixel) = Inr palette"
      and rows: "collect (\<lambda>y.
               case collect (\<lambda>x. get_pixel palette ?xor ?and width height bits_per_pixel x y)
                      [0..<width] of
                 Inl e \<Rightarrow> Inl e
               | Inr quads \<Rightarrow> Inr (concat quads))
             [0..<height] = Inr pixels"
    by (auto simp add: indexed_pixels_def Let_def split: sum.splits)
  let ?gp = "\<lambda>y x. get_pixel palette ?xor ?and width height bits_per_pixel x y"
  from collect_Inr [OF rows] have "length pixels = height" by simp
  moreover have "\<forall>row\<in>set pixels. length row = 4 * width"
  proof
    fix row assume "row \<in> set pixels"
    with collect_results [OF rows] obtain y
      where "(case collect (?gp y) [0..<width] of Inl e \<Rightarrow> Inl e
              | Inr quads \<Rightarrow> Inr (concat quads)) = Inr row"
      by blast
    then obtain quads where quads: "collect (?gp y) [0..<width] = Inr quads"
      and row: "row = concat quads"
      by (auto split: sum.splits)
    have "\<forall>q\<in>set quads. length q = 4"
    proof
      fix q assume "q \<in> set quads"
      with collect_results [OF quads] obtain x where "?gp y x = Inr q"
        by blast
      with read_palette_length [OF palette] show "length q = 4"
        by (rule get_pixel_length)
    qed
    then have "length (concat quads) = 4 * length quads"
      by (rule length_concat_chunks)
    with collect_Inr [OF quads] row show "length row = 4 * width" by simp
  qed
  ultimately show ?thesis ..
qed

lemma dib_pixels_lengths:
  assumes "dib_pixels data offset dib_size width height dib = Inr pixels"
  shows "length pixels = height \<and> (\<forall>row\<in>set pixels. length row = 4 * width)"
proof -
  consider "biBitCount dib \<le> 8" | "biBitCount dib = 32" | "biBitCount dib = 24"
    | "8 < biBitCount dib" "biBitCount dib \<noteq> 32" "biBitCount dib \<noteq> 24"
    by linarith
  then show ?thesis
  proof cases
    case 1
    with assms show ?thesis
      by (simp add: dib_pixels_indexed indexed_pixels_lengths)
  next
    case 2
    with assms show ?thesis
      by (simp add: dib_pixels_def pixels32_lengths)
  next
    case 3
    with assms show ?thesis
      by (simp add: dib_pixels_def pixels24_lengths)
  next
    case 4
    with assms show ?thesis
      by (simp add: dib_pixels_other_depth)
  qed
qed

lemma decode_image_lengths:
  assumes "decode_image data d = Inr (Raster width height pixels)"
  shows "width = d ! 0 \<and> height = d ! 1 \<and> length pixels = d ! 1
         \<and> (\<forall>row\<in>set pixels. length row = 4 * d ! 0)"
proof -
  from decode_image_Raster_dib [OF assms] obtain dib
    where "dib_pixels data (d ! 7) 40 (d ! 0) (d ! 1) dib = Inr pixels"
      and "width = d ! 0" and "height = d ! 1"
    by blast
  with dib_pixels_lengths [of data "d ! 7" 40 "d ! 0" "d ! 1" dib pixels]
  show ?thesis by simp
qed

text \<open>
  Claim C5.  In every parsed directory record each of the first three fields
  (width, height, colour count) is 256 when its byte in the file is 0 and the value
  of the byte otherwise, each field on its own.  These values are what the rest of
  the conversion works with: the record that is selected is one of these records
  and its triple of them is the greatest, and when the conversion decodes pixels,
  the width and the height it hands to the writer are those of the selected record,
  there are as many rows as that height, and each row has four channel values for
  each of that width's pixels.
\<close>

theorem zero_fields_read_as_256:
  assumes "read_directories data = Inr directories"
    and "i < length directories" and "j < 3"
  shows "directories ! i ! j =
           (if unat (data ! (6 + 16 * i + j)) = 0 then 256 else unat (data ! (6 + 16 * i + j)))
         \<and> (\<exists>d. selected data = Inr d \<and> d \<in> set directories
                \<and> (\<forall>e\<in>set directories.
                      triple_le (e ! 0, e ! 1, e ! 2) (d ! 0, d ! 1, d ! 2)))
         \<and> (\<forall>d width height pixels.
               selected data = Inr d \<and> decode data = Inr (Raster width height pixels) \<longrightarrow>
               width = d ! 0 \<and> height = d ! 1 \<and> length pixels = d ! 1
               \<and> (\<forall>row\<in>set pixels. length row = 4 * d ! 0))"
proof -
  let ?bs = "slice (6 + 16 * i) (6 + 16 * i + 16) data"
  define raw where "raw = fields [1, 1, 1, 1, 2, 2, 4, 4] ?bs"
  from read_directories_Inr [OF assms(1)] assms(2)
  have rd: "read_directory data i = Inr (directories ! i)" by simp
  then have long: "6 + 16 * i + 16 \<le> length data"
    and d: "directories ! i = normalise raw"
    by (simp_all add: read_directory_eq raw_def split: if_splits)
  from long have "3 \<le> length ?bs" by (simp add: length_slice)
  then have "raw ! j = unat (?bs ! j)"
    unfolding raw_def using assms(3) by (rule fields_first_bytes)
  moreover from long assms(3) have "?bs ! j = data ! (6 + 16 * i + j)"
    by (simp add: nth_slice)
  moreover have "3 \<le> length raw"
    by (simp add: raw_def length_fields)
  ultimately have first: "directories ! i ! j =
      (if unat (data ! (6 + 16 * i + j)) = 0 then 256 else unat (data ! (6 + 16 * i + j)))"
    using assms(3) by (simp add: d nth_normalise)
  from assms(2) obtain m ds where ds: "directories = m # ds"
    by (cases directories) auto
  have "\<forall>e\<in>set (m # ds). 3 \<le> length e"
    using read_directories_length [OF assms(1)] ds by simp
  from max_from_maximal [OF this] assms(1) ds
  have second: "\<exists>d. selected data = Inr d \<and> d \<in> set directories
                \<and> (\<forall>e\<in>set directories.
                      triple_le (e ! 0, e ! 1, e ! 2) (d ! 0, d ! 1, d ! 2))"
    by (simp add: selected_def max_directory_def)
  have third: "width = d ! 0 \<and> height = d ! 1 \<and> length pixels = d ! 1
               \<and> (\<forall>row\<in>set pixels. length row = 4 * d ! 0)"
    if "selected data = Inr d \<and> decode data = Inr (Raster width height pixels)"
    for d width height pixels
  proof -
    from that have "decode_image data d = Inr (Raster width height pixels)"
      by (auto simp add: decode_def)
    then show ?thesis by (rule decode_image_lengths)
  qed
  from first second third show ?thesis by blast
qed

lemma slice_full_length: "p + n \<le> length data \<Longrightarrow> length (slice p (p + n) data) = n"
  by (simp add: length_slice)

lemma raw_pixels_succeeds:
  assumes "offset + dib_size + n * (width * height) \<le> length data"
  shows "\<exists>rows. raw_pixels data offset dib_size width height n = Inr rows"
proof -
  let ?f = "\<lambda>y x. unpack (replicate n 1)
                     (slice (offset + dib_size + n * (y * width + x))
                            (offset + dib_size + n * (y * width + x) + n) data)"
  have "\<exists>v. ?f y x = Inr v" if "y < height" and "x < width" for y x
  proof -
    from that have "Suc (y * width + x) \<le> y * width + width" by simp
    also have "\<dots> = Suc y * width" by simp
    also from that have "\<dots> \<le> height * width"
      by (intro mult_le_mono1) simp
    finally have "n * Suc (y * width + x) \<le> n * (height * width)"
      by (rule mult_le_mono2)
    then have "n * (y * width + x) + n \<le> n * (width * height)"
      by (simp add: mult.commute)
    with assms have "offset + dib_size + n * (y * width + x) + n \<le> length data"
      by simp
    then have "length (slice (offset + dib_size + n * (y * width + x))
                             (offset + dib_size + n * (y * width + x) + n) data) = n"
      by (rule slice_full_length)
    then show ?thesis by (simp add: unpack_bytes)
  qed
  then have "\<forall>y\<in>set (rev [0..<height]). \<exists>row. collect (?f y) [0..<width] = Inr row"
    by (auto intro!: collect_succeeds)
  then have "\<exists>rows. collect (\<lambda>y. collect (?f y) [0..<width]) (rev [0..<height]) = Inr rows"
    by (rule collect_succeeds)
  then show ?thesis by (simp add: raw_pixels_def)
qed

lemma decode_24bpp_succeeds:
  assumes "selected data = Inr d"
    and "slice (d ! 7) (d ! 7 + 16) data \<noteq> png_signature"
    and "unpack_dib (slice (d ! 7) (d ! 7 + 40) data) = Inr dib"
    and "biSize dib = 40" and "biBitCount dib = 24"
    and "d ! 7 + 40 + 3 * (d ! 0 * d ! 1) \<le> length data"
  shows "\<exists>pixels. decode data = Inr (Raster (d ! 0) (d ! 1) pixels)"
proof -
  from raw_pixels_succeeds [OF assms(6)] obtain rows
    where "raw_pixels data (d ! 7) 40 (d ! 0) (d ! 1) 3 = Inr rows" ..
  with assms(5) have "\<exists>pixels. dib_pixels data (d ! 7) 40 (d ! 0) (d ! 1) dib = Inr pixels"
    by (simp add: dib_pixels_def pixels24_def)
  with decode_image_dib [OF assms(2-4)] assms(1) show ?thesis
    by (auto simp add: decode_selected)
qed

lemma icon_wide_directories:
  "read_directories icon_wide =
     Inr [[255, 1, 256, 0, 1, 24, 808, 38], [256, 1, 256, 0, 1, 24, 808, 38]]"
  unfolding icon_wide_def by code_simp

lemma icon_wide_selected: "selected icon_wide = Inr [256, 1, 256, 0, 1, 24, 808, 38]"
  unfolding icon_wide_def by code_simp

lemma icon_wide_dib:
  "unpack_dib (slice 38 78 icon_wide) =
     Inr \<lparr>biSize = 40, biWidth = 256, biHeight = 2, biPlanes = 1, biBitCount = 24,
          biCompression = 0, biSizeImage = 0, biXPelsPerMeter = 0, biYPelsPerMeter = 0,
          biClrUsed = 0, biClrImportant = 0\<rparr>"
  unfolding icon_wide_def by (simp add: slice_def unpack_dib_def le_int32_def)

lemma icon_wide_payload:
  "slice 38 54 icon_wide \<noteq> png_signature"
  "length icon_wide = 846"
  "unat (icon_wide ! 22) = 0"
  unfolding icon_wide_def png_signature_def by (simp_all add: slice_def)

lemma icon_wide_decodes: "\<exists>pixels. decode icon_wide = Inr (Raster 256 1 pixels)"
proof -
  let ?d = "[256, 1, 256, 0, 1, 24, 808, 38 :: nat]"
  let ?dib = "\<lparr>biSize = 40, biWidth = 256, biHeight = 2, biPlanes = 1, biBitCount = 24,
          biCompression = 0, biSizeImage = 0, biXPelsPerMeter = 0, biYPelsPerMeter = 0,
          biClrUsed = 0, biClrImportant = 0\<rparr>"
  have h2: "slice (?d ! 7) (?d ! 7 + 16) icon_wide \<noteq> png_signature"
    using icon_wide_payload(1) by simp
  have h3: "unpack_dib (slice (?d ! 7) (?d ! 7 + 40) icon_wide) = Inr ?dib"
    using icon_wide_dib by simp
  have h4: "biSize ?dib = 40" and h5: "biBitCount ?dib = 24" by simp_all
  have h6: "?d ! 7 + 40 + 3 * (?d ! 0 * ?d ! 1) \<le> length icon_wide"
    by (simp add: icon_wide_payload(2))
  from decode_24bpp_succeeds [OF icon_wide_selected h2 h3 h4 h5 h6] show ?thesis
    by simp
qed

text \<open>
  In \<open>icon_wide\<close> the width byte of the second record is 0.  The record is read
  with the width 256, it is selected against the first record, whose width is 255,
  and the decoding gives one row of \<open>4 * 256\<close> values.
\<close>

theorem zero_fields_read_as_256_witness:
  "read_directories icon_wide =
     Inr [[255, 1, 256, 0, 1, 24, 808, 38], [256, 1, 256, 0, 1, 24, 808, 38]]
   \<and> (1::nat) < length [[255, 1, 256, 0, 1, 24, 808, 38], [256, 1, 256, 0, 1, 24, 808, 38 :: nat]]
   \<and> (0::nat) < 3
   \<and> unat (icon_wide ! 22) = 0
   \<and> [[255, 1, 256, 0, 1, 24, 808, 38], [256, 1, 256, 0, 1, 24, 808, 38 :: nat]] ! 1 ! 0 = 256
   \<and> selected icon_wide = Inr [256, 1, 256, 0, 1, 24, 808, 38]
   \<and> triple_le (255, 1, 256) (256, 1, 256)
   \<and> (\<exists>pixels. decode icon_wide = Inr (Raster 256 1 pixels)
         \<and> length pixels = 1 \<and> (\<forall>row\<in>set pixels. length row = 1024))"
proof -
  let ?ds = "[[255, 1, 256, 0, 1, 24, 808, 38], [256, 1, 256, 0, 1, 24, 808, 38 :: nat]]"
  have i: "(1::nat) < length ?ds" and j: "(0::nat) < 3"
    by simp_all
  note inst = zero_fields_read_as_256 [OF icon_wide_directories i j]
  from inst have field: "?ds ! 1 ! 0 = 256"
    by (simp add: icon_wide_payload(3))
  from inst have "triple_le (255, 1, 256) (256, 1, 256)"
    by (simp add: icon_wide_selected)
  moreover from icon_wide_decodes obtain pixels
    where decoded: "decode icon_wide = Inr (Raster 256 1 pixels)" ..
  from inst icon_wide_selected decoded
  have "length pixels = 1 \<and> (\<forall>row\<in>set pixels. length row = 1024)"
    by simp
  with decoded
  have "\<exists>pixels. decode icon_wide = Inr (Raster 256 1 pixels)
         \<and> length pixels = 1 \<and> (\<forall>row\<in>set pixels. length row = 1024)"
    by blast
  ultimately show ?thesis
    using icon_wide_directories i j icon_wide_payload(3) field icon_wide_selected
    by (intro conjI)
qed

end
